theory Spec2Isabelle
  imports Main "HOL-Library.Sublist"
begin

section \<open>Strings\<close>

text \<open>
  Python strings are modelled as HOL strings: lists of characters with the codes 0 to
  255, each standing for the code point of that number. The model is exact on ASCII
  text. \<open>lower\<close> is \<open>str.lower\<close> on the letters A-Z and carries every other character
  through unchanged; the lower-casing of the characters outside ASCII, which follows
  the Unicode database, is not modelled. The tests on letters and digits below are those
  of the URL parser and of the regular expression, which know ASCII only. \<open>str.isupper\<close>,
  which the validation sweep asks of the characters of a file name, follows the Unicode
  database as well and is a parameter there.
\<close>

datatype exn =
  ValueError | KeyError | TimeoutError | TimeoutException | WebDriverException | ShutilError

definition lower_char :: "char \<Rightarrow> char" where
  "lower_char c =
     (case map_of (zip ''ABCDEFGHIJKLMNOPQRSTUVWXYZ'' ''abcdefghijklmnopqrstuvwxyz'') c of
        Some d \<Rightarrow> d
      | None \<Rightarrow> c)"

definition lower :: "string \<Rightarrow> string" where
  "lower s = map lower_char s"

definition isupper_char :: "char \<Rightarrow> bool" where
  "isupper_char c = (c \<in> set ''ABCDEFGHIJKLMNOPQRSTUVWXYZ'')"

definition islower_char :: "char \<Rightarrow> bool" where
  "islower_char c = (c \<in> set ''abcdefghijklmnopqrstuvwxyz'')"

definition isdigit_char :: "char \<Rightarrow> bool" where
  "isdigit_char c = (c \<in> set ''0123456789'')"

definition endswith :: "string \<Rightarrow> string \<Rightarrow> bool" where
  "endswith s ext = suffix ext s"

text \<open>\<open>s.split(sep="/")[-1]\<close>: what follows the last slash (all of \<open>s\<close> without one).\<close>

definition last_segment :: "string \<Rightarrow> string" where
  "last_segment s = rev (takeWhile (\<lambda>c. c \<noteq> CHR ''/'') (rev s))"

section \<open>The path component of \<open>urllib.parse.urlparse\<close>\<close>

text \<open>
  \<open>urlparse(url).path\<close>, following CPython's \<open>urlsplit\<close> and \<open>urlparse\<close>: leading
  C0 controls and spaces are stripped, tabs and line breaks removed, a scheme and a
  \<open>//\<close>-introduced authority are split off, then the fragment, the query and (for the
  schemes that take them) the parameters of the last segment. An authority with an
  unmatched square bracket raises \<open>ValueError\<close>. What else the parser asks of an
  authority (the address between a matched pair of brackets, the characters its NFKC
  normal form may hold) differs between versions of the library and follows the Unicode
  database: that check is the parameter \<open>netloc_ok\<close>, true of the authorities the parser
  lets pass; a refusal raises \<open>ValueError\<close> as well, and an empty authority is never
  refused.
\<close>

definition c0_or_space :: "char \<Rightarrow> bool" where
  "c0_or_space c = (of_char c \<le> (32::nat))"

definition strip_unsafe :: "string \<Rightarrow> string" where
  "strip_unsafe url =
     filter (\<lambda>c. c \<notin> {CHR 0x09, CHR 0x0A, CHR 0x0D}) (dropWhile c0_or_space url)"

definition scheme_char :: "char \<Rightarrow> bool" where
  "scheme_char c =
     (islower_char c \<or> isupper_char c \<or> isdigit_char c \<or> c \<in> set ''+-.'')"

definition split_scheme :: "string \<Rightarrow> string \<times> string" where
  "split_scheme url =
     (let s = takeWhile (\<lambda>c. c \<noteq> CHR '':'') url
      in if CHR '':'' \<in> set url \<and> s \<noteq> []
            \<and> (islower_char (hd s) \<or> isupper_char (hd s)) \<and> list_all scheme_char s
         then (lower s, drop (length s + 1) url)
         else ([], url))"

definition split_netloc :: "string \<Rightarrow> string \<times> string" where
  "split_netloc url =
     (if take 2 url = ''//''
      then (let rest = drop 2 url;
                netloc = takeWhile (\<lambda>c. c \<notin> set ''/?#'') rest
            in (netloc, drop (length netloc) rest))
      else ([], url))"

definition invalid_ipv6 :: "string \<Rightarrow> bool" where
  "invalid_ipv6 netloc =
     ((CHR ''['' \<in> set netloc \<and> CHR '']'' \<notin> set netloc)
      \<or> (CHR '']'' \<in> set netloc \<and> CHR ''['' \<notin> set netloc))"

definition uses_params :: "string list" where
  "uses_params = ['''', ''ftp'', ''hdl'', ''prospero'', ''http'', ''imap'', ''https'',
     ''shttp'', ''rtsp'', ''rtspu'', ''sip'', ''sips'', ''mms'', ''sftp'', ''tel'']"

text \<open>\<open>_splitparams(url)[0]\<close>: the first semicolon after the last slash ends the path.\<close>

definition splitparams :: "string \<Rightarrow> string" where
  "splitparams url =
     (if CHR ''/'' \<in> set url
      then (let seg = last_segment url
            in if CHR '';'' \<in> set seg
               then take (length url - length seg) url @ takeWhile (\<lambda>c. c \<noteq> CHR '';'') seg
               else url)
      else takeWhile (\<lambda>c. c \<noteq> CHR '';'') url)"

definition urlparse_path :: "(string \<Rightarrow> bool) \<Rightarrow> string \<Rightarrow> exn + string" where
  "urlparse_path netloc_ok given =
     (let (scheme, url1) = split_scheme (strip_unsafe given);
          (netloc, url2) = split_netloc url1
      in if invalid_ipv6 netloc then Inl ValueError
         else if netloc \<noteq> [] \<and> \<not> netloc_ok netloc then Inl ValueError
         else (let url3 = takeWhile (\<lambda>c. c \<noteq> CHR ''#'') url2;
                   url4 = takeWhile (\<lambda>c. c \<noteq> CHR ''?'') url3
               in Inr (if scheme \<in> set uses_params \<and> CHR '';'' \<in> set url4
                       then splitparams url4 else url4)))"

section \<open>Filename derivation\<close>

text \<open>The character class \<open>[a-z0-9._-]\<close> of the regular expression in \<open>url_to_filename\<close>.\<close>

definition allowed_char :: "char \<Rightarrow> bool" where
  "allowed_char c = (islower_char c \<or> isdigit_char c \<or> c \<in> set ''._-'')"

text \<open>\<open>re.sub(pattern=r"[^a-z0-9._-]", repl="", string=filename)\<close>.\<close>

definition re_sub_disallowed :: "string \<Rightarrow> string" where
  "re_sub_disallowed s = filter allowed_char s"

definition url_to_filename :: "(string \<Rightarrow> bool) \<Rightarrow> string \<Rightarrow> exn + string" where
  "url_to_filename netloc_ok url =
     (case urlparse_path netloc_ok url of
        Inl e \<Rightarrow> Inl e
      | Inr path \<Rightarrow>
          (let filename = lower (last_segment path);
               cleaned_filename = re_sub_disallowed filename
           in Inr (lower cleaned_filename)))"

text \<open>The pattern \<open>^[a-z0-9._-]+$\<close> of the specification, on a string without line breaks.\<close>

definition matches_filename_pattern :: "string \<Rightarrow> bool" where
  "matches_filename_pattern s = (s \<noteq> [] \<and> list_all allowed_char s)"

section \<open>Link extraction\<close>

text \<open>
  \<open>urllib.parse.unquote\<close>: a percent sign followed by two hexadecimal digits is replaced
  by the byte they denote, any other percent sign stays. The decoded bytes are kept as
  they are (Python decodes them as UTF-8 afterwards, which leaves ASCII bytes alone).
\<close>

definition hexval :: "char \<Rightarrow> nat option" where
  "hexval c = map_of (zip ''0123456789abcdefABCDEF''
                [0, 1, 2, 3, 4, 5, 6, 7, 8, 9, 10, 11, 12, 13, 14, 15, 10, 11, 12, 13, 14, 15]) c"

fun unquote :: "string \<Rightarrow> string" where
  "unquote (p # a # b # rest) =
     (case (hexval a, hexval b) of
        (Some h, Some l) \<Rightarrow>
          (if p = CHR ''%'' then char_of (16 * h + l) # unquote rest
           else p # unquote (a # b # rest))
      | _ \<Rightarrow> p # unquote (a # b # rest))"
| "unquote (p # rest) = p # unquote rest"
| "unquote [] = []"

text \<open>
  The parsed document is the markup parser's: its tags in document order, each with a
  name and its attributes. \<open>find_all(name="a", href=True)\<close> keeps the anchors that have
  an \<open>href\<close> attribute, and \<open>a["href"]\<close> reads it (\<open>KeyError\<close> without one).
\<close>

record tag =
  tag_name :: string
  tag_attrs :: "(string \<times> string) list"

definition find_all_a_href :: "tag list \<Rightarrow> tag list" where
  "find_all_a_href soup =
     filter (\<lambda>t. tag_name t = ''a'' \<and> map_of (tag_attrs t) ''href'' \<noteq> None) soup"

definition get_href :: "tag \<Rightarrow> exn + string" where
  "get_href a = (case map_of (tag_attrs a) ''href'' of None \<Rightarrow> Inl KeyError | Some h \<Rightarrow> Inr h)"

text \<open>The loop of \<open>parse_html\<close> over the anchors, with \<open>pdf_links\<close> as accumulator.\<close>

fun parse_html_loop :: "tag list \<Rightarrow> string list \<Rightarrow> exn + string list" where
  "parse_html_loop [] pdf_links = Inr pdf_links"
| "parse_html_loop (a # anchors) pdf_links =
     (case get_href a of
        Inl e \<Rightarrow> Inl e
      | Inr href \<Rightarrow>
          (let decoded_href = unquote href
           in if endswith (lower decoded_href) ''.pdf''
              then parse_html_loop anchors (pdf_links @ [href])
              else parse_html_loop anchors pdf_links))"

definition parse_html :: "(string \<Rightarrow> tag list) \<Rightarrow> string \<Rightarrow> exn + string list" where
  "parse_html soup html = parse_html_loop (find_all_a_href (soup html)) []"

text \<open>
  The specification's words: the \<open>href\<close> values of the anchors that have one, in document
  order, and the test on the decoded, lower-cased value.
\<close>

definition anchor_hrefs :: "tag list \<Rightarrow> string list" where
  "anchor_hrefs tags =
     List.map_filter (\<lambda>t. if tag_name t = ''a'' then map_of (tag_attrs t) ''href'' else None) tags"

definition is_pdf_href :: "string \<Rightarrow> bool" where
  "is_pdf_href href = endswith (lower (unquote href)) ''.pdf''"

text \<open>
  \<open>list(set(provided_slice))\<close>: the set of the elements, as a list. The order in which
  Python enumerates a set of strings is the interpreter's (it follows the hashes of the
  strings); it is the parameter \<open>set_order\<close>, which lists a set.
\<close>

definition remove_duplicates_from_slice ::
  "(string set \<Rightarrow> string list) \<Rightarrow> string list \<Rightarrow> string list" where
  "remove_duplicates_from_slice set_order provided_slice = set_order (set provided_slice)"

section \<open>The download wait\<close>

text \<open>\<open>os.path.join\<close> of two POSIX paths.\<close>

definition os_path_join :: "string \<Rightarrow> string \<Rightarrow> string" where
  "os_path_join a b =
     (if take 1 b = ''/'' then b
      else if a = [] \<or> last a = CHR ''/'' then a @ b
      else a @ ''/'' @ b)"

text \<open>
  \<open>wait_for_pdf_download\<close> reads the clock and lists the download folder once per
  iteration. What it sees is given as the first clock reading and the list of later
  observations, each the clock reading of the loop test and the names the folder holds
  when it is listed next (in the order the set of names is enumerated). Clock readings
  are integers (ticks of the clock). The result is \<open>None\<close> when the observations
  end before the loop does.
\<close>

definition is_new_pdf :: "string list \<Rightarrow> string \<Rightarrow> bool" where
  "is_new_pdf files_before_download f =
     (f \<notin> set files_before_download \<and> endswith (lower f) ''.pdf'')"

fun wait_loop ::
  "string \<Rightarrow> string list \<Rightarrow> int \<Rightarrow> (int \<times> string list) list \<Rightarrow> (exn + string) option" where
  "wait_loop download_folder files_before_download deadline [] = None"
| "wait_loop download_folder files_before_download deadline ((now, current_files) # later) =
     (if now < deadline
      then (let new_pdf_files = filter (is_new_pdf files_before_download) current_files
            in if new_pdf_files \<noteq> []
               then Some (Inr (os_path_join download_folder (hd new_pdf_files)))
               else wait_loop download_folder files_before_download deadline later)
      else Some (Inl TimeoutError))"

definition wait_for_pdf_download ::
  "string \<Rightarrow> string list \<Rightarrow> int \<Rightarrow> int \<Rightarrow> (int \<times> string list) list \<Rightarrow> (exn + string) option" where
  "wait_for_pdf_download download_folder files_before_download timeout_seconds start observations =
     (let deadline = start + timeout_seconds
      in wait_loop download_folder files_before_download deadline observations)"

section \<open>The effects of a run\<close>

text \<open>
  What a run does to its surroundings is recorded as a list of events, in the order of
  the calls: files removed, browser sessions started and ended, pages fetched, links
  validated, downloads triggered, files moved, documents opened, and the lines printed
  about them.
\<close>

datatype event =
    Removed string
  | CreatedHtmlDriver
  | FetchedPage string
  | QuitHtmlDriver
  | CreatedDownloadDriver string
  | Validated string
  | Navigated string
  | Moved string string
  | QuitDownloadDriver
  | Opened string
  | LoggedCorrupt string
  | LoggedExists string
  | LoggedError exn
  | Reported string

section \<open>The directory walk\<close>

text \<open>
  A directory is the list of its entries: files, and directories with their own entries.
  \<open>os.walk\<close> yields, from the top down, every directory's path with the names of its files; the
  paths of the subdirectories are joined from the path of their parent.
\<close>

datatype entry = File string | Dir string "entry list"

fun entry_name :: "entry \<Rightarrow> string" where
  "entry_name (File n) = n"
| "entry_name (Dir n sub) = n"

fun file_names :: "entry list \<Rightarrow> string list" where
  "file_names [] = []"
| "file_names (File n # es) = n # file_names es"
| "file_names (Dir n sub # es) = file_names es"

fun os_walk :: "string \<Rightarrow> entry list \<Rightarrow> (string \<times> string list) list"
  and os_walk_subdirs :: "string \<Rightarrow> entry list \<Rightarrow> (string \<times> string list) list" where
  "os_walk dirpath entries = (dirpath, file_names entries) # os_walk_subdirs dirpath entries"
| "os_walk_subdirs dirpath [] = []"
| "os_walk_subdirs dirpath (File n # es) = os_walk_subdirs dirpath es"
| "os_walk_subdirs dirpath (Dir n sub # es) = os_walk (os_path_join dirpath n) sub @ os_walk_subdirs dirpath es"

text \<open>
  \<open>os.path.normpath\<close> and \<open>os.path.abspath\<close> of POSIX paths. The working directory of
  the process, which \<open>abspath\<close> reads, is a parameter.
\<close>

fun split_on :: "char \<Rightarrow> string \<Rightarrow> string list" where
  "split_on sep [] = [[]]"
| "split_on sep (c # cs) =
     (if c = sep then [] # split_on sep cs
      else (case split_on sep cs of [] \<Rightarrow> [[c]] | w # ws \<Rightarrow> (c # w) # ws))"

fun join_with :: "string \<Rightarrow> string list \<Rightarrow> string" where
  "join_with sep [] = []"
| "join_with sep [w] = w"
| "join_with sep (w # ws) = w @ sep @ join_with sep ws"

definition initial_slashes :: "string \<Rightarrow> nat" where
  "initial_slashes path =
     (if take 1 path \<noteq> ''/'' then 0
      else if take 2 path = ''//'' \<and> take 3 path \<noteq> ''///'' then 2
      else 1)"

definition normpath_step :: "nat \<Rightarrow> string list \<Rightarrow> string \<Rightarrow> string list" where
  "normpath_step slashes new_comps part =
     (if part = [] \<or> part = ''.'' then new_comps
      else if part \<noteq> ''..'' \<or> (slashes = 0 \<and> new_comps = [])
              \<or> (new_comps \<noteq> [] \<and> last new_comps = ''..'')
      then new_comps @ [part]
      else if new_comps \<noteq> [] then butlast new_comps
      else new_comps)"

definition normpath :: "string \<Rightarrow> string" where
  "normpath path =
     (if path = [] then ''.''
      else (let slashes = initial_slashes path;
                parts = foldl (normpath_step slashes) [] (split_on CHR ''/'' path);
                joined = replicate slashes CHR ''/'' @ join_with ''/'' parts
            in if joined = [] then ''.'' else joined))"

definition abspath :: "string \<Rightarrow> string \<Rightarrow> string" where
  "abspath cwd path = normpath (os_path_join cwd path)"

text \<open>
  The two loops of \<open>walk_directory_and_extract_given_file_extension\<close>, with
  \<open>matched_files\<close> as accumulator. A directory that does not exist yields nothing.
\<close>

fun match_files ::
  "string \<Rightarrow> string \<Rightarrow> string \<Rightarrow> string list \<Rightarrow> string list \<Rightarrow> string list" where
  "match_files cwd extension root [] matched_files = matched_files"
| "match_files cwd extension root (file # files) matched_files =
     (if endswith file extension
      then (let full_path = abspath cwd (os_path_join root file)
            in match_files cwd extension root files (matched_files @ [full_path]))
      else match_files cwd extension root files matched_files)"

fun walk_loop ::
  "string \<Rightarrow> string \<Rightarrow> (string \<times> string list) list \<Rightarrow> string list \<Rightarrow> string list" where
  "walk_loop cwd extension [] matched_files = matched_files"
| "walk_loop cwd extension ((root, files) # rest) matched_files =
     walk_loop cwd extension rest (match_files cwd extension root files matched_files)"

definition walk_directory_and_extract_given_file_extension ::
  "string \<Rightarrow> entry list option \<Rightarrow> string \<Rightarrow> string \<Rightarrow> string list" where
  "walk_directory_and_extract_given_file_extension cwd tree system_path extension =
     (case tree of
        None \<Rightarrow> []
      | Some entries \<Rightarrow> walk_loop cwd extension (os_walk system_path entries) [])"

text \<open>The files of a directory tree, each with the path of the directory that holds it.\<close>

inductive file_in :: "string \<Rightarrow> entry list \<Rightarrow> string \<Rightarrow> string \<Rightarrow> bool" where
  here: "File n \<in> set entries \<Longrightarrow> file_in dirpath entries dirpath n"
| below: "Dir d sub \<in> set entries \<Longrightarrow> file_in (os_path_join dirpath d) sub root n
           \<Longrightarrow> file_in dirpath entries root n"

section \<open>The validation sweep\<close>

text \<open>
  \<open>fitz.open\<close> is the document parser's: it gives a page count or raises the
  \<open>RuntimeError\<close> of a file it cannot read.
\<close>

datatype open_result = Pages nat | StructuralError

definition validate_pdf_file :: "(string \<Rightarrow> open_result) \<Rightarrow> string \<Rightarrow> bool \<times> event list" where
  "validate_pdf_file fitz_open file_path =
     (case fitz_open file_path of
        Pages page_count \<Rightarrow>
          (if page_count = 0 then (False, [Opened file_path, LoggedCorrupt file_path])
           else (True, [Opened file_path]))
      | StructuralError \<Rightarrow> (False, [Opened file_path, LoggedCorrupt file_path]))"

text \<open>\<open>os.path.basename\<close>: what follows the last slash.\<close>

definition get_filename_and_extension :: "string \<Rightarrow> string" where
  "get_filename_and_extension path = last_segment path"

text \<open>
  \<open>any(char.isupper() for char in content)\<close>, with \<open>str.isupper\<close> of a character as
  the parameter \<open>isupper\<close>.
\<close>

definition check_upper_case_letter :: "(char \<Rightarrow> bool) \<Rightarrow> string \<Rightarrow> bool" where
  "check_upper_case_letter isupper content = list_ex isupper content"

text \<open>
  The last loop of \<open>main\<close>, over the files the walk found: \<open>sweep_file\<close> is its body.
  The paths come from one walk of the tree, and \<open>os.remove\<close> of such a file succeeds.
\<close>

definition sweep_file ::
  "(char \<Rightarrow> bool) \<Rightarrow> (string \<Rightarrow> open_result) \<Rightarrow> string \<Rightarrow> event list" where
  "sweep_file isupper fitz_open pdf_file =
     (let (valid, opened) = validate_pdf_file fitz_open pdf_file;
          removed = (if valid = False then [Removed pdf_file] else []);
          reported = (if check_upper_case_letter isupper (get_filename_and_extension pdf_file)
                      then [Reported pdf_file] else [])
      in opened @ removed @ reported)"

fun validation_sweep ::
  "(char \<Rightarrow> bool) \<Rightarrow> (string \<Rightarrow> open_result) \<Rightarrow> string list \<Rightarrow> event list" where
  "validation_sweep isupper fitz_open [] = []"
| "validation_sweep isupper fitz_open (pdf_file # files) =
     sweep_file isupper fitz_open pdf_file @ validation_sweep isupper fitz_open files"

definition main_sweep ::
  "string \<Rightarrow> (char \<Rightarrow> bool) \<Rightarrow> (string \<Rightarrow> open_result) \<Rightarrow> entry list option
     \<Rightarrow> event list" where
  "main_sweep cwd isupper fitz_open tree =
     (let files = walk_directory_and_extract_given_file_extension cwd tree ''./PDFs'' ''.pdf''
      in validation_sweep isupper fitz_open files)"

text \<open>The path an event of the sweep is about.\<close>

fun sweep_path :: "event \<Rightarrow> string option" where
  "sweep_path (Opened p) = Some p"
| "sweep_path (LoggedCorrupt p) = Some p"
| "sweep_path (Removed p) = Some p"
| "sweep_path (Reported p) = Some p"
| "sweep_path _ = None"

text \<open>
  For the examples: a document parser that can read no file, and \<open>str.isupper\<close> on the
  code points below 256, where the uppercase letters are A to Z and the letters from
  U+00C0 to U+00DE but the multiplication sign U+00D7.
\<close>

definition unreadable :: "string \<Rightarrow> open_result" where
  "unreadable path = StructuralError"

definition isupper_latin1 :: "char \<Rightarrow> bool" where
  "isupper_latin1 c =
     (isupper_char c
      \<or> (0xC0 \<le> (of_char c :: nat) \<and> (of_char c :: nat) \<le> 0xDE \<and> (of_char c :: nat) \<noteq> 0xD7))"

section \<open>Downloading one document\<close>

text \<open>
  What the download session and the file system do once a download is asked for is
  theirs to decide: whether \<open>driver.get\<close> raises, what the clock and the listings of
  the folder show during the wait, what the folder holds afterwards, and whether
  \<open>shutil.move\<close> raises or how it leaves the folder.
\<close>

record browser =
  get_outcome :: "exn option"
  clock :: int
  polls :: "(int \<times> string list) list"
  folder_after :: "entry list"
  move_outcome :: "string \<Rightarrow> string \<Rightarrow> exn + entry list"

text \<open>
  The download folder is \<open>None\<close> while it does not exist. \<open>os.makedirs\<close> with
  \<open>exist_ok=True\<close> creates it empty or leaves it as it is. \<open>check_file_exists\<close> is
  \<open>os.path.isfile\<close> of the target, the folder joined with the filename. The filename
  is a plain name (\<open>url_to_filename\<close> returns no slash): when it is empty or a dot
  name the target is a directory (the folder itself or its parent), else the target is a
  file exactly when the folder has a file entry of that name.
\<close>

definition makedirs :: "entry list option \<Rightarrow> entry list" where
  "makedirs folder = (case folder of None \<Rightarrow> [] | Some entries \<Rightarrow> entries)"

definition check_file_exists :: "entry list \<Rightarrow> string \<Rightarrow> bool" where
  "check_file_exists entries filename =
     (filename \<notin> set ['''', ''.'', ''..''] \<and> File filename \<in> set entries)"

text \<open>
  The specification's words for the skip, that the destination path exists: it is the
  folder, its parent, or an entry of the folder, a file or a directory.
\<close>

definition destination_exists :: "entry list \<Rightarrow> string \<Rightarrow> bool" where
  "destination_exists entries filename =
     (filename \<in> set ['''', ''.'', ''..''] \<or> filename \<in> set (map entry_name entries))"

text \<open>
  \<open>download_single_pdf\<close> gives the folder and the events. A result \<open>None\<close> means that
  the wait did not end within the observations. The \<open>try\<close> block logs every exception
  and returns.
\<close>

definition download_single_pdf ::
  "(string \<Rightarrow> entry list \<Rightarrow> browser) \<Rightarrow> string \<Rightarrow> string \<Rightarrow> string \<Rightarrow> entry list option
     \<Rightarrow> (entry list option \<times> event list) option" where
  "download_single_pdf session url filename output_folder folder =
     (let entries = makedirs folder;
          target_file_path = os_path_join output_folder filename
      in if check_file_exists entries filename
         then Some (Some entries, [LoggedExists target_file_path])
         else (let files_before = map entry_name entries;
                   b = session url entries
               in case get_outcome b of
                    Some e \<Rightarrow> Some (Some (folder_after b), [Navigated url, LoggedError e])
                  | None \<Rightarrow>
                     (case wait_for_pdf_download output_folder files_before 3 (clock b) (polls b) of
                        None \<Rightarrow> None
                      | Some (Inl e) \<Rightarrow>
                          Some (Some (folder_after b), [Navigated url, LoggedError e])
                      | Some (Inr downloaded_pdf_path) \<Rightarrow>
                          (case move_outcome b downloaded_pdf_path target_file_path of
                             Inl e \<Rightarrow>
                               Some (Some (folder_after b), [Navigated url, LoggedError e])
                           | Inr moved \<Rightarrow>
                               Some (Some moved,
                                     [Navigated url, Moved downloaded_pdf_path target_file_path])))))"

section \<open>The loop over the links\<close>

text \<open>
  The body of the loop of \<open>main\<close>: a link that \<open>validators.url\<close> rejects gets the site
  origin in front; the filename is derived from the resulting URL, outside any handler;
  then the document is downloaded. The result carries the folder, the events and the
  exception that ended the loop, if one did.
\<close>

definition site_origin :: string where
  "site_origin = ''https://www.biokleen.com''"

definition fix_relative_url :: "(string \<Rightarrow> bool) \<Rightarrow> string \<Rightarrow> string" where
  "fix_relative_url validate_url pdf_link =
     (if \<not> validate_url pdf_link then site_origin @ pdf_link else pdf_link)"

fun process_links ::
  "(string \<Rightarrow> bool) \<Rightarrow> (string \<Rightarrow> bool) \<Rightarrow> (string \<Rightarrow> entry list \<Rightarrow> browser) \<Rightarrow> string
     \<Rightarrow> string list \<Rightarrow> entry list option
     \<Rightarrow> (entry list option \<times> event list \<times> exn option) option" where
  "process_links netloc_ok validate_url session output_dir [] folder = Some (folder, [], None)"
| "process_links netloc_ok validate_url session output_dir (pdf_link # rest) folder =
     (let url = fix_relative_url validate_url pdf_link
      in case url_to_filename netloc_ok url of
           Inl e \<Rightarrow> Some (folder, [Validated pdf_link], Some e)
         | Inr filename \<Rightarrow>
             (case download_single_pdf session url filename output_dir folder of
                None \<Rightarrow> None
              | Some (folder1, events1) \<Rightarrow>
                  (case process_links netloc_ok validate_url session output_dir rest folder1 of
                     None \<Rightarrow> None
                   | Some (folder2, events2, raised) \<Rightarrow>
                       Some (folder2, Validated pdf_link # events1 @ events2, raised))))"

text \<open>The link an event validates, if it is a validation.\<close>

fun validated :: "event \<Rightarrow> string option" where
  "validated (Validated pdf_link) = Some pdf_link"
| "validated _ = None"

text \<open>
  The events of a run, cut at the validations: every link that was validated, with the
  events that follow its validation up to the next one.
\<close>

fun segments :: "event list \<Rightarrow> (string \<times> event list) list" where
  "segments [] = []"
| "segments (Validated pdf_link # events) =
     (pdf_link, takeWhile (\<lambda>ev. validated ev = None) events) # segments events"
| "segments (ev # events) = segments events"

section \<open>The fetch of the page\<close>

text \<open>
  The snapshot file is \<open>None\<close> while it does not exist, else its content. The page load
  gives the page source, or raises \<open>TimeoutException\<close>, which \<open>save_html_with_selenium\<close>
  catches, or raises another exception, which it does not catch. The page source is
  appended to the file.
\<close>

datatype fetch_result = PageSource string | PageLoadTimeout | PageLoadError exn

definition html_file_path :: string where
  "html_file_path = ''biokleen.com.html''"

definition page_url :: string where
  "page_url = ''https://www.biokleen.com/sds''"

definition append_write_to_file :: "string option \<Rightarrow> string \<Rightarrow> string option" where
  "append_write_to_file file content =
     (case file of None \<Rightarrow> Some content | Some old \<Rightarrow> Some (old @ content))"

definition save_html_with_selenium ::
  "(string \<Rightarrow> fetch_result) \<Rightarrow> string \<Rightarrow> string option
     \<Rightarrow> string option \<times> event list \<times> exn option" where
  "save_html_with_selenium fetch url output_file =
     (case fetch url of
        PageSource html \<Rightarrow> (append_write_to_file output_file html, [FetchedPage url], None)
      | PageLoadTimeout \<Rightarrow> (output_file, [FetchedPage url, LoggedError TimeoutException], None)
      | PageLoadError x \<Rightarrow> (output_file, [FetchedPage url], Some x))"

text \<open>
  The first part of \<open>main\<close>: a snapshot file that exists is removed, then the page is
  fetched if no snapshot file exists. The fetch session is quit on every path.
\<close>

definition main_fetch ::
  "(string \<Rightarrow> fetch_result) \<Rightarrow> string option \<Rightarrow> string option \<times> event list \<times> exn option" where
  "main_fetch fetch snapshot =
     (let (snapshot1, removed) =
            (if snapshot \<noteq> None then (None, [Removed html_file_path]) else (snapshot, []))
      in if snapshot1 = None
         then (let (snapshot2, fetched, raised) = save_html_with_selenium fetch page_url snapshot1
               in (snapshot2, removed @ [CreatedHtmlDriver] @ fetched @ [QuitHtmlDriver], raised))
         else (snapshot1, removed, None))"

text \<open>
  \<open>read_a_file\<close> opens the file in text mode, where a carriage return, alone or before a
  line feed, is read as a line feed. (On a POSIX system the page source was written to
  the file as it is.)
\<close>

fun universal_newlines :: "string \<Rightarrow> string" where
  "universal_newlines (c # d # s) =
     (if c = CHR 0x0D
      then (if d = CHR 0x0A then CHR 0x0A # universal_newlines s
            else CHR 0x0A # universal_newlines (d # s))
      else c # universal_newlines (d # s))"
| "universal_newlines [c] = (if c = CHR 0x0D then [CHR 0x0A] else [c])"
| "universal_newlines [] = []"

definition read_a_file :: "string \<Rightarrow> string" where
  "read_a_file content = universal_newlines content"

section \<open>The whole run\<close>

text \<open>
  What a run is given by its surroundings: the page load, the markup parser, the URL
  validator, the check of authorities by the URL parser, the order in which a set of
  links is enumerated, the download session, the working directory, the uppercase test
  and the document parser.
\<close>

record env =
  env_fetch :: "string \<Rightarrow> fetch_result"
  env_soup :: "string \<Rightarrow> tag list"
  env_validate_url :: "string \<Rightarrow> bool"
  env_netloc_ok :: "string \<Rightarrow> bool"
  env_set_order :: "string set \<Rightarrow> string list"
  env_session :: "string \<Rightarrow> entry list \<Rightarrow> browser"
  env_cwd :: string
  env_isupper :: "char \<Rightarrow> bool"
  env_fitz_open :: "string \<Rightarrow> open_result"

text \<open>
  \<open>main\<close>, from the snapshot file and the download folder it finds: the events of the
  run and the exception that ended it, if one did. Both sessions are quit on every path;
  an exception of the fetch or of the loop over the links ends the run before the sweep.
\<close>

definition main ::
  "env \<Rightarrow> string option \<Rightarrow> entry list option \<Rightarrow> (event list \<times> exn option) option" where
  "main e snapshot folder =
     (let (snapshot1, fetched, raised) = main_fetch (env_fetch e) snapshot
      in case raised of
           Some x \<Rightarrow> Some (fetched, Some x)
         | None \<Rightarrow>
            (case snapshot1 of
               None \<Rightarrow>
                 Some (fetched @ main_sweep (env_cwd e) (env_isupper e) (env_fitz_open e) folder,
                       None)
             | Some content \<Rightarrow>
                 (let html_content = read_a_file content
                  in case parse_html (env_soup e) html_content of
                       Inl x \<Rightarrow> Some (fetched, Some x)
                     | Inr found \<Rightarrow>
                         (let pdf_links = remove_duplicates_from_slice (env_set_order e) found;
                              output_dir = abspath (env_cwd e) ''PDFs''
                          in case process_links (env_netloc_ok e) (env_validate_url e)
                                    (env_session e) output_dir pdf_links folder of
                               None \<Rightarrow> None
                             | Some (folder1, events, Some x) \<Rightarrow>
                                 Some (fetched @ [CreatedDownloadDriver output_dir] @ events
                                       @ [QuitDownloadDriver], Some x)
                             | Some (folder1, events, None) \<Rightarrow>
                                 Some (fetched @ [CreatedDownloadDriver output_dir] @ events
                                       @ [QuitDownloadDriver]
                                       @ main_sweep (env_cwd e) (env_isupper e) (env_fitz_open e)
                                           folder1,
                                       None)))))"

section \<open>Surroundings for the examples\<close>

text \<open>
  A validator that accepts what starts with a web scheme; a check of authorities that
  lets pass the ASCII authorities without square brackets, which every version of the
  URL parser lets pass, and no other; an enumeration that lists a set in the order of a
  given list; a session in which every navigation fails; a session in which no document
  arrives before the deadline; a page with one link; and a page whose first link has a
  bracket in its name.
\<close>

definition scheme_validator :: "string \<Rightarrow> bool" where
  "scheme_validator u = (take 7 u = ''http://'' \<or> take 8 u = ''https://'')"

definition ascii_no_brackets :: "string \<Rightarrow> bool" where
  "ascii_no_brackets netloc =
     list_all (\<lambda>c. (of_char c :: nat) < 128 \<and> c \<noteq> CHR ''['' \<and> c \<noteq> CHR '']'') netloc"

definition in_order_of :: "string list \<Rightarrow> string set \<Rightarrow> string list" where
  "in_order_of links S = filter (\<lambda>l. l \<in> S) (remdups links)"

definition failing_session :: "string \<Rightarrow> entry list \<Rightarrow> browser" where
  "failing_session url entries =
     \<lparr>get_outcome = Some WebDriverException, clock = 0, polls = [(3, map entry_name entries)],
      folder_after = entries, move_outcome = (\<lambda>src dst. Inl ShutilError)\<rparr>"

definition timeout_session :: "string \<Rightarrow> entry list \<Rightarrow> browser" where
  "timeout_session url entries =
     \<lparr>get_outcome = None, clock = 0, polls = [(3, map entry_name entries)],
      folder_after = entries, move_outcome = (\<lambda>src dst. Inl ShutilError)\<rparr>"

definition fresh_page :: "string \<Rightarrow> fetch_result" where
  "fresh_page url = PageSource ''<a href=/sds/new.pdf>''"

definition fresh_soup :: "string \<Rightarrow> tag list" where
  "fresh_soup html =
     (if html = ''<a href=/sds/new.pdf>''
      then [\<lparr>tag_name = ''a'', tag_attrs = [(''href'', ''/sds/new.pdf'')]\<rparr>]
      else if html = ''<a href=/sds/old.pdf>''
      then [\<lparr>tag_name = ''a'', tag_attrs = [(''href'', ''/sds/old.pdf'')]\<rparr>]
      else [])"

definition example_env :: env where
  "example_env =
     \<lparr>env_fetch = fresh_page, env_soup = fresh_soup, env_validate_url = scheme_validator,
      env_netloc_ok = ascii_no_brackets,
      env_set_order = in_order_of [''/sds/new.pdf'', ''/sds/old.pdf''],
      env_session = failing_session, env_cwd = ''/work'', env_isupper = isupper_latin1,
      env_fitz_open = unreadable\<rparr>"

definition bracket_soup :: "string \<Rightarrow> tag list" where
  "bracket_soup html =
     [\<lparr>tag_name = ''a'', tag_attrs = [(''href'', ''sheet[1.pdf'')]\<rparr>,
      \<lparr>tag_name = ''a'', tag_attrs = [(''href'', ''/sds/b.pdf'')]\<rparr>]"

definition bracket_env :: env where
  "bracket_env =
     \<lparr>env_fetch = fresh_page, env_soup = bracket_soup, env_validate_url = scheme_validator,
      env_netloc_ok = ascii_no_brackets,
      env_set_order = in_order_of [''sheet[1.pdf'', ''/sds/b.pdf''],
      env_session = failing_session, env_cwd = ''/work'', env_isupper = isupper_latin1,
      env_fitz_open = unreadable\<rparr>"
section \<open>Properties of the filename derivation\<close>

lemma lower_char_id: "\<not> isupper_char c \<Longrightarrow> lower_char c = c"
  by (simp add: lower_char_def isupper_char_def)

lemma allowed_not_upper: "allowed_char c \<Longrightarrow> \<not> isupper_char c"
  by (auto simp: allowed_char_def islower_char_def isdigit_char_def isupper_char_def)

lemma allowed_char_lower: "allowed_char c \<Longrightarrow> lower_char c = c"
  by (simp add: lower_char_id allowed_not_upper)

lemma allowed_char_not_slash: "allowed_char c \<Longrightarrow> c \<noteq> CHR ''/''"
  by (auto simp: allowed_char_def islower_char_def isdigit_char_def)

lemma lower_allowed: "list_all allowed_char s \<Longrightarrow> lower s = s"
  by (induction s) (simp_all add: lower_def allowed_char_lower)

lemma re_sub_disallowed_allowed: "list_all allowed_char (re_sub_disallowed s)"
  by (simp add: re_sub_disallowed_def list_all_iff)

lemma url_to_filename_result:
  "url_to_filename netloc_ok url = Inr f \<Longrightarrow>
     \<exists>path. urlparse_path netloc_ok url = Inr path \<and> f = re_sub_disallowed (lower (last_segment path))"
  by (auto simp: url_to_filename_def Let_def lower_allowed re_sub_disallowed_allowed
      split: sum.splits)

text \<open>
  Claim C2, as the code has it: whenever \<open>url_to_filename\<close> returns, whatever the URL
  parser asks of authorities, every character of the filename is in \<open>[a-z0-9._-]\<close>, so the
  filename holds no path separator and lower-casing it again changes nothing. The
  filename may be empty.
\<close>

theorem url_to_filename_chars:
  "url_to_filename netloc_ok url = Inr f \<Longrightarrow>
     list_all allowed_char f \<and> CHR ''/'' \<notin> set f \<and> lower f = f"
proof -
  assume "url_to_filename netloc_ok url = Inr f"
  then obtain path where f: "f = re_sub_disallowed (lower (last_segment path))"
    using url_to_filename_result by blast
  have a: "list_all allowed_char f"
    unfolding f by (rule re_sub_disallowed_allowed)
  moreover have "CHR ''/'' \<notin> set f"
    using a allowed_char_not_slash by (auto simp: list_all_iff)
  moreover have "lower f = f"
    using a by (rule lower_allowed)
  ultimately show ?thesis by simp
qed

theorem url_to_filename_chars_witness:
  "url_to_filename ascii_no_brackets ''https://www.biokleen.com/sds/Sheet%201.PDF?v=2'' = Inr ''sheet201.pdf''
   \<and> list_all allowed_char ''sheet201.pdf'' \<and> CHR ''/'' \<notin> set ''sheet201.pdf''
   \<and> lower ''sheet201.pdf'' = ''sheet201.pdf''"
proof -
  have e: "url_to_filename ascii_no_brackets ''https://www.biokleen.com/sds/Sheet%201.PDF?v=2'' = Inr ''sheet201.pdf''"
    by code_simp
  show ?thesis
    using e url_to_filename_chars [OF e] by simp
qed

text \<open>
  A URL whose path ends in a slash has an empty last segment, and the derived filename is
  the empty string, which the pattern \<open>^[a-z0-9._-]+$\<close> does not match.
\<close>

theorem url_to_filename_empty_counterexample:
  "url_to_filename ascii_no_brackets ''https://www.biokleen.com/sds/'' = Inr ''''
   \<and> \<not> matches_filename_pattern ''''"
  by code_simp

section \<open>Properties of the link extraction\<close>

lemma find_all_a_href_Cons:
  "find_all_a_href (t # tags) =
     (if tag_name t = ''a'' \<and> map_of (tag_attrs t) ''href'' \<noteq> None
      then t # find_all_a_href tags else find_all_a_href tags)"
  by (simp add: find_all_a_href_def)

lemma anchor_hrefs_Cons:
  "anchor_hrefs (t # tags) =
     (case (if tag_name t = ''a'' then map_of (tag_attrs t) ''href'' else None) of
        None \<Rightarrow> anchor_hrefs tags
      | Some h \<Rightarrow> h # anchor_hrefs tags)"
  by (simp add: anchor_hrefs_def split: option.splits)

lemma parse_html_loop_acc:
  "parse_html_loop (find_all_a_href tags) acc = Inr (acc @ filter is_pdf_href (anchor_hrefs tags))"
proof (induction tags arbitrary: acc)
  case Nil
  show ?case by (simp add: find_all_a_href_def anchor_hrefs_def)
next
  case (Cons t tags)
  show ?case
  proof (cases "tag_name t = ''a'' \<and> map_of (tag_attrs t) ''href'' \<noteq> None")
    case False
    then show ?thesis
      using Cons.IH [of acc] by (auto simp: find_all_a_href_Cons anchor_hrefs_Cons)
  next
    case True
    then obtain h where h: "map_of (tag_attrs t) ''href'' = Some h" by auto
    have step: "parse_html_loop (t # find_all_a_href tags) acc =
        parse_html_loop (find_all_a_href tags) (if is_pdf_href h then acc @ [h] else acc)"
      using h by (simp add: get_href_def is_pdf_href_def Let_def)
    have fa: "find_all_a_href (t # tags) = t # find_all_a_href tags"
      using True by (simp add: find_all_a_href_Cons)
    have ah: "anchor_hrefs (t # tags) = h # anchor_hrefs tags"
      using True h by (simp add: anchor_hrefs_Cons)
    show ?thesis
      unfolding fa ah step by (simp add: Cons.IH)
  qed
qed

lemma anchor_hrefs_member:
  "h \<in> set (anchor_hrefs tags) \<longleftrightarrow>
     (\<exists>t \<in> set tags. tag_name t = ''a'' \<and> map_of (tag_attrs t) ''href'' = Some h)"
  by (induction tags) (auto simp: anchor_hrefs_Cons anchor_hrefs_def
      split: option.splits if_splits)

text \<open>
  Claim C8: \<open>parse_html\<close> returns, in document order, the \<open>href\<close> values of the anchors
  that have one and whose percent-decoded, lower-cased form ends in \<open>.pdf\<close>; the values
  returned are the attribute values themselves, not their decoded forms, and a tag that
  is no anchor or has no \<open>href\<close> adds nothing.
\<close>

theorem parse_html_extracts:
  "parse_html soup html = Inr (filter is_pdf_href (anchor_hrefs (soup html)))
   \<and> (\<forall>h. h \<in> set (filter is_pdf_href (anchor_hrefs (soup html))) \<longleftrightarrow>
          (\<exists>t \<in> set (soup html). tag_name t = ''a'' \<and> map_of (tag_attrs t) ''href'' = Some h)
          \<and> endswith (lower (unquote h)) ''.pdf'')"
proof -
  have "parse_html soup html = Inr (filter is_pdf_href (anchor_hrefs (soup html)))"
    by (simp add: parse_html_def parse_html_loop_acc)
  moreover have "\<forall>h. h \<in> set (filter is_pdf_href (anchor_hrefs (soup html))) \<longleftrightarrow>
          (\<exists>t \<in> set (soup html). tag_name t = ''a'' \<and> map_of (tag_attrs t) ''href'' = Some h)
          \<and> endswith (lower (unquote h)) ''.pdf''"
    by (simp add: anchor_hrefs_member is_pdf_href_def)
  ultimately show ?thesis by (rule conjI)
qed

theorem parse_html_extracts_witness:
  "parse_html
     (\<lambda>_. [\<lparr>tag_name = ''a'', tag_attrs = [(''class'', ''x''), (''href'', ''/sds/a%2EPDF'')]\<rparr>,
           \<lparr>tag_name = ''a'', tag_attrs = [(''name'', ''top'')]\<rparr>,
           \<lparr>tag_name = ''link'', tag_attrs = [(''href'', ''/style.pdf'')]\<rparr>,
           \<lparr>tag_name = ''a'', tag_attrs = [(''href'', ''/sds/a.pdf?v=1'')]\<rparr>,
           \<lparr>tag_name = ''a'', tag_attrs = [(''href'', ''/b.pdf'')]\<rparr>]) ''<html>''
   = Inr [''/sds/a%2EPDF'', ''/b.pdf'']"
proof -
  let ?soup = "\<lambda>_::string. [\<lparr>tag_name = ''a'', tag_attrs = [(''class'', ''x''), (''href'', ''/sds/a%2EPDF'')]\<rparr>,
           \<lparr>tag_name = ''a'', tag_attrs = [(''name'', ''top'')]\<rparr>,
           \<lparr>tag_name = ''link'', tag_attrs = [(''href'', ''/style.pdf'')]\<rparr>,
           \<lparr>tag_name = ''a'', tag_attrs = [(''href'', ''/sds/a.pdf?v=1'')]\<rparr>,
           \<lparr>tag_name = ''a'', tag_attrs = [(''href'', ''/b.pdf'')]\<rparr>]"
  have ev: "filter is_pdf_href (anchor_hrefs (?soup ''<html>'')) = [''/sds/a%2EPDF'', ''/b.pdf'']"
    by code_simp
  have "parse_html ?soup ''<html>'' = Inr (filter is_pdf_href (anchor_hrefs (?soup ''<html>'')))"
    using parse_html_extracts [of ?soup "''<html>''"] by (rule conjunct1)
  then show ?thesis
    unfolding ev .
qed

section \<open>Properties of the download wait\<close>

lemma wait_loop_found:
  "\<lbrakk>\<forall>(t, l) \<in> set earlier. t < deadline \<and> \<not> (\<exists>f \<in> set l. is_new_pdf before f);
    now < deadline; \<exists>f \<in> set listing. is_new_pdf before f\<rbrakk>
   \<Longrightarrow> \<exists>f \<in> set listing. is_new_pdf before f
         \<and> wait_loop folder before deadline (earlier @ (now, listing) # later)
             = Some (Inr (os_path_join folder f))"
proof (induction earlier)
  case Nil
  let ?new = "filter (is_new_pdf before) listing"
  from Nil.prems(3) have ne: "?new \<noteq> []" by (auto simp: filter_empty_conv)
  have "hd ?new \<in> set listing \<and> is_new_pdf before (hd ?new)"
    using hd_in_set [OF ne] unfolding set_filter by blast
  moreover have "wait_loop folder before deadline ((now, listing) # later)
      = Some (Inr (os_path_join folder (hd ?new)))"
    using Nil.prems(2) ne by (simp add: Let_def)
  ultimately show ?case by auto
next
  case (Cons o1 earlier)
  obtain t l where o1: "o1 = (t, l)" by (cases o1)
  from Cons.prems(1) o1 have t: "t < deadline" and l: "filter (is_new_pdf before) l = []"
    by (auto simp: filter_empty_conv)
  from Cons.prems(1) have "\<forall>(t, l) \<in> set earlier. t < deadline \<and> \<not> (\<exists>f \<in> set l. is_new_pdf before f)"
    by simp
  from Cons.IH [OF this Cons.prems(2) Cons.prems(3)] show ?case
    using t l o1 by (simp add: Let_def)
qed

lemma wait_loop_timeout:
  "\<lbrakk>\<forall>(t, l) \<in> set earlier. t < deadline \<and> \<not> (\<exists>f \<in> set l. is_new_pdf before f);
    deadline \<le> now\<rbrakk>
   \<Longrightarrow> wait_loop folder before deadline (earlier @ (now, listing) # later) = Some (Inl TimeoutError)"
proof (induction earlier)
  case Nil
  then show ?case by simp
next
  case (Cons o1 earlier)
  obtain t l where o1: "o1 = (t, l)" by (cases o1)
  from Cons.prems(1) o1 have t: "t < deadline" and l: "filter (is_new_pdf before) l = []"
    by (auto simp: filter_empty_conv)
  from Cons.prems(1) have "\<forall>(t, l) \<in> set earlier. t < deadline \<and> \<not> (\<exists>f \<in> set l. is_new_pdf before f)"
    by simp
  from Cons.IH [OF this Cons.prems(2)] show ?case
    using t l o1 by (simp add: Let_def)
qed

text \<open>
  Claim C3: when every observation before some point was made before the deadline and
  showed no new PDF, then an observation made before the deadline whose listing holds a
  name that is absent from the snapshot and ends in \<open>.pdf\<close>, whatever the case, makes
  \<open>wait_for_pdf_download\<close> return the path of such a name of that listing, and an
  observation made at or after the deadline makes it raise \<open>TimeoutError\<close>.
\<close>

theorem wait_for_pdf_download_outcome:
  assumes "\<forall>(t, l) \<in> set earlier.
             t < start + timeout_seconds \<and> \<not> (\<exists>f \<in> set l. is_new_pdf files_before f)"
  shows "(now < start + timeout_seconds \<and> (\<exists>f \<in> set listing. is_new_pdf files_before f) \<longrightarrow>
           (\<exists>f \<in> set listing. is_new_pdf files_before f
              \<and> wait_for_pdf_download folder files_before timeout_seconds start
                   (earlier @ (now, listing) # later) = Some (Inr (os_path_join folder f))))
       \<and> (start + timeout_seconds \<le> now \<longrightarrow>
           wait_for_pdf_download folder files_before timeout_seconds start
             (earlier @ (now, listing) # later) = Some (Inl TimeoutError))"
  using wait_loop_found [OF assms, of now listing folder later]
        wait_loop_timeout [OF assms, of now folder listing later]
  by (simp add: wait_for_pdf_download_def Let_def)

theorem wait_for_pdf_download_outcome_witness:
  "wait_for_pdf_download ''/out/PDFs'' [''old.pdf''] 3 100
       [(100, [''old.pdf'']), (101, [''old.pdf'', ''Doc.PDF'']), (105, [])]
     = Some (Inr ''/out/PDFs/Doc.PDF'')
   \<and> wait_for_pdf_download ''/out/PDFs'' [''old.pdf''] 3 100
       [(100, [''old.pdf'']), (103, [''old.pdf'', ''Doc.PDF''])]
     = Some (Inl TimeoutError)"
proof -
  have pre: "\<forall>(t, l) \<in> set [(100::int, [''old.pdf''])].
      t < 100 + 3 \<and> \<not> (\<exists>f \<in> set l. is_new_pdf [''old.pdf''] f)"
    by (simp add: is_new_pdf_def)
  have new: "is_new_pdf [''old.pdf''] ''Doc.PDF''"
    by code_simp
  have old: "\<not> is_new_pdf [''old.pdf''] ''old.pdf''"
    by (simp add: is_new_pdf_def)
  have join: "os_path_join ''/out/PDFs'' ''Doc.PDF'' = ''/out/PDFs/Doc.PDF''"
    by (simp add: os_path_join_def)
  have found: "wait_for_pdf_download ''/out/PDFs'' [''old.pdf''] 3 100
       [(100, [''old.pdf'']), (101, [''old.pdf'', ''Doc.PDF'']), (105, [])]
     = Some (Inr ''/out/PDFs/Doc.PDF'')"
    using wait_for_pdf_download_outcome [OF pre, of 101 "[''old.pdf'', ''Doc.PDF'']"
        "''/out/PDFs''" "[(105, [])]"] new old join
    by simp
  have timed: "wait_for_pdf_download ''/out/PDFs'' [''old.pdf''] 3 100
       [(100, [''old.pdf'']), (103, [''old.pdf'', ''Doc.PDF''])]
     = Some (Inl TimeoutError)"
    using wait_for_pdf_download_outcome [OF pre, of 103 "[''old.pdf'', ''Doc.PDF'']"
        "''/out/PDFs''" "[]"]
    by simp
  from found timed show ?thesis by (rule conjI)
qed

section \<open>Properties of the directory walk\<close>

lemma match_files_acc:
  "match_files cwd ext root files acc =
     acc @ map (\<lambda>f. abspath cwd (os_path_join root f)) (filter (\<lambda>f. endswith f ext) files)"
  by (induction files arbitrary: acc) (simp_all add: Let_def)

lemma walk_loop_acc:
  "walk_loop cwd ext rs acc =
     acc @ concat (map (\<lambda>(root, files).
        map (\<lambda>f. abspath cwd (os_path_join root f)) (filter (\<lambda>f. endswith f ext) files)) rs)"
  by (induction rs arbitrary: acc) (auto simp: match_files_acc)

lemma set_file_names: "set (file_names es) = {n. File n \<in> set es}"
  by (induction es rule: file_names.induct) auto

lemma os_walk_sound:
  "(root, files) \<in> set (os_walk d es) \<Longrightarrow> f \<in> set files \<Longrightarrow> file_in d es root f"
  "(root, files) \<in> set (os_walk_subdirs d es) \<Longrightarrow> f \<in> set files \<Longrightarrow>
     \<exists>n sub. Dir n sub \<in> set es \<and> file_in (os_path_join d n) sub root f"
proof (induction d es and d es rule: os_walk_os_walk_subdirs.induct)
  case (1 dirpath entries)
  from "1.prems" show ?case
  proof (simp, elim disjE conjE)
    assume "root = dirpath" "files = file_names entries"
    with "1.prems"(2) show "file_in dirpath entries root f"
      by (auto simp: set_file_names intro: file_in.here)
  next
    assume "(root, files) \<in> set (os_walk_subdirs dirpath entries)"
    from "1.IH" [OF this "1.prems"(2)] show "file_in dirpath entries root f"
      by (auto intro: file_in.below)
  qed
next
  case (2 dirpath)
  then show ?case by simp
next
  case (3 dirpath n es)
  then show ?case by auto
next
  case (4 dirpath n sub es)
  from "4.prems"(1) have "(root, files) \<in> set (os_walk (os_path_join dirpath n) sub)
      \<or> (root, files) \<in> set (os_walk_subdirs dirpath es)" by simp
  then show ?case
  proof
    assume "(root, files) \<in> set (os_walk (os_path_join dirpath n) sub)"
    from "4.IH"(1) [OF this "4.prems"(2)] show ?thesis by auto
  next
    assume "(root, files) \<in> set (os_walk_subdirs dirpath es)"
    from "4.IH"(2) [OF this "4.prems"(2)] show ?thesis by auto
  qed
qed

lemma os_walk_subdirs_mono:
  "Dir n sub \<in> set es \<Longrightarrow> set (os_walk (os_path_join d n) sub) \<subseteq> set (os_walk_subdirs d es)"
  by (induction es rule: file_names.induct) auto

lemma os_walk_complete:
  "file_in d es root f \<Longrightarrow> \<exists>files. (root, files) \<in> set (os_walk d es) \<and> f \<in> set files"
proof (induction rule: file_in.induct)
  case (here n entries dirpath)
  then show ?case by (auto simp: set_file_names)
next
  case (below d sub entries dirpath root n)
  then obtain files where "(root, files) \<in> set (os_walk (os_path_join dirpath d) sub)" "n \<in> set files"
    by blast
  with os_walk_subdirs_mono [OF below.hyps(1), of dirpath] show ?case by auto
qed

lemma os_walk_file_in:
  "(\<exists>files. (root, files) \<in> set (os_walk d es) \<and> f \<in> set files) \<longleftrightarrow> file_in d es root f"
  using os_walk_sound(1) os_walk_complete by blast

lemma set_walk:
  "set (walk_directory_and_extract_given_file_extension cwd (Some es) d ext) =
     {abspath cwd (os_path_join root f) | root f. file_in d es root f \<and> endswith f ext}"
proof -
  have "set (walk_directory_and_extract_given_file_extension cwd (Some es) d ext) =
     {abspath cwd (os_path_join root f) | root f.
        (\<exists>files. (root, files) \<in> set (os_walk d es) \<and> f \<in> set files) \<and> endswith f ext}"
    unfolding walk_directory_and_extract_given_file_extension_def walk_loop_acc
    by (simp del: os_walk.simps) blast
  then show ?thesis unfolding os_walk_file_in .
qed

section \<open>Properties of the validation sweep\<close>

lemma sweep_file_events:
  "sweep_file isupper fitz_open p =
     Opened p
     # (if fitz_open p = StructuralError \<or> fitz_open p = Pages 0
        then [LoggedCorrupt p, Removed p] else [])
     @ (if check_upper_case_letter isupper (get_filename_and_extension p) then [Reported p] else [])"
  by (simp add: sweep_file_def validate_pdf_file_def split: open_result.splits)

lemma validation_sweep_concat:
  "validation_sweep isupper fitz_open files = concat (map (sweep_file isupper fitz_open) files)"
  by (induction files) simp_all

lemma validation_sweep_append:
  "validation_sweep isupper fitz_open (xs @ ys) = validation_sweep isupper fitz_open xs @ validation_sweep isupper fitz_open ys"
  by (simp add: validation_sweep_concat)

lemma Removed_in_sweep_file:
  "Removed q \<in> set (sweep_file isupper fitz_open p) \<longleftrightarrow>
     q = p \<and> (fitz_open p = StructuralError \<or> fitz_open p = Pages 0)"
  by (auto simp: sweep_file_events)

lemma Reported_in_sweep_file:
  "Reported q \<in> set (sweep_file isupper fitz_open p) \<longleftrightarrow>
     q = p \<and> check_upper_case_letter isupper (get_filename_and_extension p)"
  by (auto simp: sweep_file_events)

lemma Removed_in_sweep:
  "Removed p \<in> set (validation_sweep isupper fitz_open files) \<longleftrightarrow>
     p \<in> set files \<and> (fitz_open p = StructuralError \<or> fitz_open p = Pages 0)"
  by (auto simp: validation_sweep_concat Removed_in_sweep_file)

lemma Reported_in_sweep:
  "Reported p \<in> set (validation_sweep isupper fitz_open files) \<longleftrightarrow>
     p \<in> set files \<and> check_upper_case_letter isupper (get_filename_and_extension p)"
  by (auto simp: validation_sweep_concat Reported_in_sweep_file)

lemma Opened_count_sweep_file:
  "length (filter (\<lambda>e. e = Opened p) (sweep_file isupper fitz_open q)) = (if q = p then 1 else 0)"
  by (simp add: sweep_file_events)

lemma Opened_count_sweep:
  "length (filter (\<lambda>e. e = Opened p) (validation_sweep isupper fitz_open files)) = count_list files p"
  by (induction files) (simp_all add: Opened_count_sweep_file)

lemma sweep_path_sweep_file:
  "e \<in> set (sweep_file isupper fitz_open p) \<Longrightarrow> sweep_path e = Some p"
  by (auto simp: sweep_file_events split: if_splits)

lemma sweep_path_in_files:
  "e \<in> set (validation_sweep isupper fitz_open files) \<Longrightarrow> \<exists>p \<in> set files. sweep_path e = Some p"
  by (auto simp: validation_sweep_concat dest: sweep_path_sweep_file)

text \<open>
  Claim C5: the sweep removes a file exactly when it is one of the files visited and
  opening it raised the structural error or gave a page count of zero; each visit opens
  the file once; and for such a file, whichever of the two it is, the removal follows the
  log line at once, before any report and before the next file.
\<close>

theorem validation_sweep_removes_corrupt:
  "(Removed p \<in> set (validation_sweep isupper fitz_open files) \<longleftrightarrow>
      p \<in> set files \<and> (fitz_open p = StructuralError \<or> fitz_open p = Pages 0))
   \<and> length (filter (\<lambda>e. e = Opened p) (validation_sweep isupper fitz_open files)) = count_list files p
   \<and> (fitz_open p = StructuralError \<or> fitz_open p = Pages 0 \<longrightarrow>
        validation_sweep isupper fitz_open (earlier @ p # later) =
          validation_sweep isupper fitz_open earlier
          @ [Opened p, LoggedCorrupt p, Removed p]
          @ (if check_upper_case_letter isupper (get_filename_and_extension p) then [Reported p] else [])
          @ validation_sweep isupper fitz_open later)"
proof (intro conjI impI)
  show "Removed p \<in> set (validation_sweep isupper fitz_open files) \<longleftrightarrow>
      p \<in> set files \<and> (fitz_open p = StructuralError \<or> fitz_open p = Pages 0)"
    by (rule Removed_in_sweep)
  show "length (filter (\<lambda>e. e = Opened p) (validation_sweep isupper fitz_open files)) = count_list files p"
    by (rule Opened_count_sweep)
next
  assume "fitz_open p = StructuralError \<or> fitz_open p = Pages 0"
  then show "validation_sweep isupper fitz_open (earlier @ p # later) =
          validation_sweep isupper fitz_open earlier
          @ [Opened p, LoggedCorrupt p, Removed p]
          @ (if check_upper_case_letter isupper (get_filename_and_extension p) then [Reported p] else [])
          @ validation_sweep isupper fitz_open later"
    by (simp add: validation_sweep_append sweep_file_events)
qed

theorem validation_sweep_removes_corrupt_witness:
  "validation_sweep isupper_latin1
     (\<lambda>p. if p = ''/w/PDFs/a.pdf'' then Pages 2 else if p = ''/w/PDFs/b.pdf'' then Pages 0
           else StructuralError)
     ([''/w/PDFs/a.pdf''] @ ''/w/PDFs/b.pdf'' # [''/w/PDFs/c.pdf''])
   = [Opened ''/w/PDFs/a.pdf'',
      Opened ''/w/PDFs/b.pdf'', LoggedCorrupt ''/w/PDFs/b.pdf'', Removed ''/w/PDFs/b.pdf'',
      Opened ''/w/PDFs/c.pdf'', LoggedCorrupt ''/w/PDFs/c.pdf'', Removed ''/w/PDFs/c.pdf'']"
proof -
  let ?opn = "\<lambda>p. if p = ''/w/PDFs/a.pdf'' then Pages 2 else if p = ''/w/PDFs/b.pdf'' then Pages 0
           else StructuralError"
  have c: "?opn ''/w/PDFs/b.pdf'' = StructuralError \<or> ?opn ''/w/PDFs/b.pdf'' = Pages 0"
    by simp
  have up: "\<not> check_upper_case_letter isupper_latin1 (get_filename_and_extension ''/w/PDFs/b.pdf'')"
    by code_simp
  have a: "validation_sweep isupper_latin1 ?opn [''/w/PDFs/a.pdf''] = [Opened ''/w/PDFs/a.pdf'']"
    by code_simp
  have l: "validation_sweep isupper_latin1 ?opn [''/w/PDFs/c.pdf'']
      = [Opened ''/w/PDFs/c.pdf'', LoggedCorrupt ''/w/PDFs/c.pdf'', Removed ''/w/PDFs/c.pdf'']"
    by code_simp
  from validation_sweep_removes_corrupt [of "''/w/PDFs/b.pdf''" isupper_latin1 ?opn "[]"
      "[''/w/PDFs/a.pdf'']" "[''/w/PDFs/c.pdf'']"] c
  have "validation_sweep isupper_latin1 ?opn
          ([''/w/PDFs/a.pdf''] @ ''/w/PDFs/b.pdf'' # [''/w/PDFs/c.pdf'']) =
          validation_sweep isupper_latin1 ?opn [''/w/PDFs/a.pdf'']
          @ [Opened ''/w/PDFs/b.pdf'', LoggedCorrupt ''/w/PDFs/b.pdf'', Removed ''/w/PDFs/b.pdf'']
          @ (if check_upper_case_letter isupper_latin1 (get_filename_and_extension ''/w/PDFs/b.pdf'')
             then [Reported ''/w/PDFs/b.pdf''] else [])
          @ validation_sweep isupper_latin1 ?opn [''/w/PDFs/c.pdf'']"
    by blast
  then show ?thesis
    unfolding a l using up by simp
qed

lemma takeWhile_absent: "x \<notin> set xs \<Longrightarrow> takeWhile (\<lambda>c. c \<noteq> x) xs = xs"
  by (induction xs) auto

lemma takeWhile_first: "x \<notin> set xs \<Longrightarrow> takeWhile (\<lambda>c. c \<noteq> x) (xs @ x # ys) = xs"
  by (induction xs) auto

lemma last_segment_plain: "CHR ''/'' \<notin> set name \<Longrightarrow> last_segment name = name"
  by (simp add: last_segment_def takeWhile_absent)

lemma last_segment_after_slash:
  "CHR ''/'' \<notin> set name \<Longrightarrow> last_segment (dir @ CHR ''/'' # name) = name"
  by (simp add: last_segment_def takeWhile_first)

text \<open>
  Claim C4, as the code has it: a file of the sweep is reported exactly when its filename,
  which is what follows the last slash of its path, holds a character that
  \<open>str.isupper\<close> takes for an uppercase letter, whatever the validation said; so a file
  that is removed and has such a name is reported as well, after its removal.
\<close>

theorem validation_sweep_reports_uppercase:
  "(Reported p \<in> set (validation_sweep isupper fitz_open files) \<longleftrightarrow>
      p \<in> set files \<and> (\<exists>c \<in> set (get_filename_and_extension p). isupper c))
   \<and> ((fitz_open p = StructuralError \<or> fitz_open p = Pages 0)
        \<and> (\<exists>c \<in> set (get_filename_and_extension p). isupper c) \<longrightarrow>
        sweep_file isupper fitz_open p = [Opened p, LoggedCorrupt p, Removed p, Reported p])
   \<and> (CHR ''/'' \<notin> set name \<longrightarrow>
        get_filename_and_extension (dir @ CHR ''/'' # name) = name
        \<and> get_filename_and_extension name = name)"
  by (simp add: Reported_in_sweep sweep_file_events check_upper_case_letter_def list_ex_iff
      get_filename_and_extension_def last_segment_plain last_segment_after_slash)

theorem validation_sweep_reports_uppercase_witness:
  "Reported ''/w/PDFs/Sheet.pdf''
     \<in> set (validation_sweep isupper_latin1 (\<lambda>p. Pages 0) [''/w/PDFs/Sheet.pdf''])
   \<and> sweep_file isupper_latin1 (\<lambda>p. Pages 0) ''/w/PDFs/Sheet.pdf''
       = [Opened ''/w/PDFs/Sheet.pdf'', LoggedCorrupt ''/w/PDFs/Sheet.pdf'',
          Removed ''/w/PDFs/Sheet.pdf'', Reported ''/w/PDFs/Sheet.pdf'']
   \<and> get_filename_and_extension (''/w/PDFs'' @ CHR ''/'' # ''Sheet.pdf'') = ''Sheet.pdf''
   \<and> Reported (''/w/PDFs/'' @ CHR 0xC9 # ''cole.pdf'')
     \<in> set (validation_sweep isupper_latin1 (\<lambda>p. Pages 2)
              [''/w/PDFs/'' @ CHR 0xC9 # ''cole.pdf''])
   \<and> Reported ''/w/PDFs/sheet.pdf''
     \<notin> set (validation_sweep isupper_latin1 (\<lambda>p. Pages 2) [''/w/PDFs/sheet.pdf''])"
proof -
  have "list_ex isupper_latin1 (get_filename_and_extension ''/w/PDFs/Sheet.pdf'')"
    by code_simp
  then have up: "\<exists>c \<in> set (get_filename_and_extension ''/w/PDFs/Sheet.pdf''). isupper_latin1 c"
    by (simp only: list_ex_iff)
  have plain: "CHR ''/'' \<notin> set ''Sheet.pdf''"
    by simp
  have one: "Reported ''/w/PDFs/Sheet.pdf''
     \<in> set (validation_sweep isupper_latin1 (\<lambda>p. Pages 0) [''/w/PDFs/Sheet.pdf''])
   \<and> sweep_file isupper_latin1 (\<lambda>p. Pages 0) ''/w/PDFs/Sheet.pdf''
       = [Opened ''/w/PDFs/Sheet.pdf'', LoggedCorrupt ''/w/PDFs/Sheet.pdf'',
          Removed ''/w/PDFs/Sheet.pdf'', Reported ''/w/PDFs/Sheet.pdf'']
   \<and> get_filename_and_extension (''/w/PDFs'' @ CHR ''/'' # ''Sheet.pdf'') = ''Sheet.pdf''"
    using validation_sweep_reports_uppercase [of "''/w/PDFs/Sheet.pdf''" isupper_latin1
        "\<lambda>p. Pages 0" "[''/w/PDFs/Sheet.pdf'']" "''Sheet.pdf''" "''/w/PDFs''"] up plain
    by simp
  have "list_ex isupper_latin1
      (get_filename_and_extension (''/w/PDFs/'' @ CHR 0xC9 # ''cole.pdf''))"
    by code_simp
  then have accent: "\<exists>c \<in> set (get_filename_and_extension (''/w/PDFs/'' @ CHR 0xC9 # ''cole.pdf'')).
      isupper_latin1 c"
    by (simp only: list_ex_iff)
  have two: "Reported (''/w/PDFs/'' @ CHR 0xC9 # ''cole.pdf'')
     \<in> set (validation_sweep isupper_latin1 (\<lambda>p. Pages 2)
              [''/w/PDFs/'' @ CHR 0xC9 # ''cole.pdf''])"
    using validation_sweep_reports_uppercase [of "''/w/PDFs/'' @ CHR 0xC9 # ''cole.pdf''"
        isupper_latin1 "\<lambda>p. Pages 2" "[''/w/PDFs/'' @ CHR 0xC9 # ''cole.pdf'']"] accent
    by simp
  have "\<not> list_ex isupper_latin1 (get_filename_and_extension ''/w/PDFs/sheet.pdf'')"
    by code_simp
  then have low: "\<not> (\<exists>c \<in> set (get_filename_and_extension ''/w/PDFs/sheet.pdf''). isupper_latin1 c)"
    by (simp add: list_ex_iff)
  have three: "Reported ''/w/PDFs/sheet.pdf''
     \<notin> set (validation_sweep isupper_latin1 (\<lambda>p. Pages 2) [''/w/PDFs/sheet.pdf''])"
    using validation_sweep_reports_uppercase [of "''/w/PDFs/sheet.pdf''" isupper_latin1
        "\<lambda>p. Pages 2" "[''/w/PDFs/sheet.pdf'']"] low
    by simp
  from one two three show ?thesis by simp
qed

text \<open>
  A file that cannot be opened and is named \<open>Sheet.pdf\<close> is removed and then reported,
  although it was never classified valid.
\<close>

theorem sweep_reports_corrupt_counterexample:
  "main_sweep ''/work'' isupper_latin1 unreadable (Some [File ''Sheet.pdf''])
     = [Opened ''/work/PDFs/Sheet.pdf'', LoggedCorrupt ''/work/PDFs/Sheet.pdf'',
        Removed ''/work/PDFs/Sheet.pdf'', Reported ''/work/PDFs/Sheet.pdf'']"
  by code_simp

section \<open>The extension test of the walk\<close>

lemma upper_ext_not_literal: "endswith f ''.PDF'' \<Longrightarrow> \<not> endswith f ''.pdf''"
proof
  assume "endswith f ''.PDF''" "endswith f ''.pdf''"
  then have "suffix ''.PDF'' ''.pdf'' \<or> suffix ''.pdf'' ''.PDF''"
    unfolding endswith_def by (rule suffix_same_cases)
  moreover have "\<not> suffix ''.PDF'' ''.pdf''" "\<not> suffix ''.pdf'' ''.PDF''"
    by code_simp+
  ultimately show False by blast
qed

lemma upper_ext_lower: "endswith f ''.PDF'' \<Longrightarrow> endswith (lower f) ''.pdf''"
proof -
  assume "endswith f ''.PDF''"
  then obtain zs where f: "f = zs @ ''.PDF''"
    by (auto simp: endswith_def suffix_def)
  have "lower ''.PDF'' = ''.pdf''" by code_simp
  then have "lower f = lower zs @ ''.pdf''"
    unfolding f lower_def by simp
  then show ?thesis
    unfolding endswith_def by (simp add: suffix_def)
qed

lemma main_sweep_paths:
  "e \<in> set (main_sweep cwd isupper fitz_open (Some entries)) \<Longrightarrow>
     \<exists>root f. file_in ''./PDFs'' entries root f \<and> endswith f ''.pdf''
        \<and> sweep_path e = Some (abspath cwd (os_path_join root f))"
proof -
  assume "e \<in> set (main_sweep cwd isupper fitz_open (Some entries))"
  then obtain p
    where p: "p \<in> set (walk_directory_and_extract_given_file_extension cwd (Some entries) ''./PDFs'' ''.pdf'')"
      and e: "sweep_path e = Some p"
    unfolding main_sweep_def Let_def using sweep_path_in_files by blast
  from p obtain root f where "file_in ''./PDFs'' entries root f" "endswith f ''.pdf''"
      "p = abspath cwd (os_path_join root f)"
    unfolding set_walk by blast
  with e show ?thesis by blast
qed

text \<open>
  Claim C10: the walk collects exactly the files of the tree whose names end in the
  literal extension; every document the sweep opens, removes or reports is such a file;
  and a name ending in \<open>.PDF\<close> does not end in \<open>.pdf\<close>, though the download wait would take
  it for a new PDF.
\<close>

theorem walk_extension_case_sensitive:
  "set (walk_directory_and_extract_given_file_extension cwd (Some entries) dirpath ''.pdf'') =
     {abspath cwd (os_path_join root f) | root f. file_in dirpath entries root f \<and> endswith f ''.pdf''}
   \<and> (\<forall>e \<in> set (main_sweep cwd isupper fitz_open (Some entries)).
        \<exists>root f. file_in ''./PDFs'' entries root f \<and> endswith f ''.pdf''
           \<and> sweep_path e = Some (abspath cwd (os_path_join root f)))
   \<and> (endswith name ''.PDF'' \<longrightarrow> \<not> endswith name ''.pdf'' \<and> is_new_pdf [] name)"
proof (intro conjI ballI impI)
  show "set (walk_directory_and_extract_given_file_extension cwd (Some entries) dirpath ''.pdf'') =
     {abspath cwd (os_path_join root f) | root f. file_in dirpath entries root f \<and> endswith f ''.pdf''}"
    by (rule set_walk)
next
  fix e assume "e \<in> set (main_sweep cwd isupper fitz_open (Some entries))"
  then show "\<exists>root f. file_in ''./PDFs'' entries root f \<and> endswith f ''.pdf''
           \<and> sweep_path e = Some (abspath cwd (os_path_join root f))"
    by (rule main_sweep_paths)
next
  assume "endswith name ''.PDF''"
  then show "\<not> endswith name ''.pdf''" by (rule upper_ext_not_literal)
next
  assume "endswith name ''.PDF''"
  then show "is_new_pdf [] name" by (simp add: is_new_pdf_def upper_ext_lower)
qed

theorem walk_extension_case_sensitive_witness:
  "main_sweep ''/work'' isupper_latin1 unreadable (Some [File ''SHEET.PDF'']) = []
   \<and> \<not> endswith ''SHEET.PDF'' ''.pdf'' \<and> is_new_pdf [] ''SHEET.PDF''"
proof -
  note inst = walk_extension_case_sensitive [of "''/work''" "[File ''SHEET.PDF'']" "''./PDFs''"
      isupper_latin1 unreadable "''SHEET.PDF''"]
  have ext: "endswith ''SHEET.PDF'' ''.PDF''" by code_simp
  from inst have name: "endswith ''SHEET.PDF'' ''.PDF'' \<longrightarrow>
      \<not> endswith ''SHEET.PDF'' ''.pdf'' \<and> is_new_pdf [] ''SHEET.PDF''"
    by (elim conjE)
  with ext have upper: "\<not> endswith ''SHEET.PDF'' ''.pdf'' \<and> is_new_pdf [] ''SHEET.PDF''"
    by (rule rev_mp)
  from inst have every: "\<forall>e \<in> set (main_sweep ''/work'' isupper_latin1 unreadable (Some [File ''SHEET.PDF''])).
        \<exists>root f. file_in ''./PDFs'' [File ''SHEET.PDF''] root f \<and> endswith f ''.pdf''
           \<and> sweep_path e = Some (abspath ''/work'' (os_path_join root f))"
    by (elim conjE)
  have "set (main_sweep ''/work'' isupper_latin1 unreadable (Some [File ''SHEET.PDF''])) = {}"
  proof (rule equals0I)
    fix e assume "e \<in> set (main_sweep ''/work'' isupper_latin1 unreadable (Some [File ''SHEET.PDF'']))"
    with every have "\<exists>root f. file_in ''./PDFs'' [File ''SHEET.PDF''] root f \<and> endswith f ''.pdf''
           \<and> sweep_path e = Some (abspath ''/work'' (os_path_join root f))"
      by (rule bspec)
    then obtain root f where fi: "file_in ''./PDFs'' [File ''SHEET.PDF''] root f"
      and e: "endswith f ''.pdf''" by (elim exE conjE)
    from fi have "f = ''SHEET.PDF''"
      by (cases rule: file_in.cases) simp_all
    with e upper show False by simp
  qed
  then have "main_sweep ''/work'' isupper_latin1 unreadable (Some [File ''SHEET.PDF'']) = []"
    by (simp only: set_empty)
  then show ?thesis using upper by (rule conjI)
qed

section \<open>Properties of the fetch\<close>

lemma main_fetch_result:
  "main_fetch fetch snapshot =
     (case fetch page_url of
        PageSource html \<Rightarrow>
          (Some html,
           (if snapshot \<noteq> None then [Removed html_file_path] else [])
           @ [CreatedHtmlDriver, FetchedPage page_url, QuitHtmlDriver],
           None)
      | PageLoadTimeout \<Rightarrow>
          (None,
           (if snapshot \<noteq> None then [Removed html_file_path] else [])
           @ [CreatedHtmlDriver, FetchedPage page_url, LoggedError TimeoutException,
              QuitHtmlDriver],
           None)
      | PageLoadError x \<Rightarrow>
          (None,
           (if snapshot \<noteq> None then [Removed html_file_path] else [])
           @ [CreatedHtmlDriver, FetchedPage page_url, QuitHtmlDriver],
           Some x))"
  by (simp add: main_fetch_def save_html_with_selenium_def append_write_to_file_def
      split: fetch_result.splits)

lemma main_fetch_old:
  "main_fetch fetch (Some old) =
     (fst (main_fetch fetch None), Removed html_file_path # fst (snd (main_fetch fetch None)),
      snd (snd (main_fetch fetch None)))"
  by (simp add: main_fetch_result split: fetch_result.splits)

lemma main_old:
  "main e (Some old) folder =
     map_option (\<lambda>(events, raised). (Removed html_file_path # events, raised)) (main e None folder)"
proof -
  obtain s ev r where f: "main_fetch (env_fetch e) None = (s, ev, r)"
    by (cases "main_fetch (env_fetch e) None")
  then have g: "main_fetch (env_fetch e) (Some old) = (s, Removed html_file_path # ev, r)"
    by (simp add: main_fetch_old)
  show ?thesis
    unfolding main_def f g
    by (simp add: Let_def split: option.splits sum.splits prod.splits)
qed

section \<open>Properties of the downloads\<close>

lemma download_single_pdf_exists:
  "check_file_exists entries filename \<Longrightarrow>
     download_single_pdf session url filename output_folder (Some entries) =
       Some (Some entries, [LoggedExists (os_path_join output_folder filename)])"
  by (simp add: download_single_pdf_def makedirs_def)

lemma download_single_pdf_attempt:
  "\<not> check_file_exists (makedirs folder) filename \<Longrightarrow>
   download_single_pdf session url filename output_folder folder = Some (folder1, events) \<Longrightarrow>
     (\<exists>e. events = [Navigated url, LoggedError e])
     \<or> (\<exists>src. events = [Navigated url, Moved src (os_path_join output_folder filename)])"
  by (auto simp: download_single_pdf_def Let_def split: option.splits sum.splits)

lemma download_single_pdf_events:
  "download_single_pdf session url filename output_folder folder = Some (folder1, events) \<Longrightarrow>
     events = [LoggedExists (os_path_join output_folder filename)]
     \<or> (\<exists>e. events = [Navigated url, LoggedError e])
     \<or> (\<exists>src. events = [Navigated url, Moved src (os_path_join output_folder filename)])"
  by (auto simp: download_single_pdf_def Let_def split: if_splits option.splits sum.splits)

lemma download_single_pdf_returns:
  "wait_for_pdf_download output_folder (map entry_name (makedirs folder)) 3
      (clock (session url (makedirs folder))) (polls (session url (makedirs folder))) \<noteq> None \<Longrightarrow>
   \<exists>folder1 events. download_single_pdf session url filename output_folder folder = Some (folder1, events)"
  by (auto simp: download_single_pdf_def Let_def split: if_splits option.splits sum.splits)

lemma download_single_pdf_no_validation:
  "download_single_pdf session url filename output_folder folder = Some (folder1, events) \<Longrightarrow>
     \<forall>ev \<in> set events. validated ev = None"
  by (drule download_single_pdf_events) auto

text \<open>
  The handler of \<open>download_single_pdf\<close>: an exception of the navigation, of the wait
  or of the move is logged and the function returns.
\<close>

lemma download_single_pdf_catches:
  assumes "\<not> check_file_exists (makedirs folder) filename"
  shows "(get_outcome (session url (makedirs folder)) = Some x \<longrightarrow>
           download_single_pdf session url filename output_dir folder =
             Some (Some (folder_after (session url (makedirs folder))),
                   [Navigated url, LoggedError x]))
       \<and> (get_outcome (session url (makedirs folder)) = None
          \<and> wait_for_pdf_download output_dir (map entry_name (makedirs folder)) 3
               (clock (session url (makedirs folder))) (polls (session url (makedirs folder)))
             = Some (Inl x) \<longrightarrow>
           download_single_pdf session url filename output_dir folder =
             Some (Some (folder_after (session url (makedirs folder))),
                   [Navigated url, LoggedError x]))
       \<and> (get_outcome (session url (makedirs folder)) = None
          \<and> wait_for_pdf_download output_dir (map entry_name (makedirs folder)) 3
               (clock (session url (makedirs folder))) (polls (session url (makedirs folder)))
             = Some (Inr src)
          \<and> move_outcome (session url (makedirs folder)) src (os_path_join output_dir filename)
             = Inl x \<longrightarrow>
           download_single_pdf session url filename output_dir folder =
             Some (Some (folder_after (session url (makedirs folder))),
                   [Navigated url, LoggedError x]))"
  using assms by (simp add: download_single_pdf_def Let_def)

lemma map_filter_append:
  "List.map_filter f (xs @ ys) = List.map_filter f xs @ List.map_filter f ys"
  by (simp add: map_filter_def)

lemma map_filter_no_validation:
  "\<forall>ev \<in> set events. validated ev = None \<Longrightarrow> List.map_filter validated events = []"
  by (induction events) (simp_all add: map_filter_def)

lemma process_links_Cons:
  "url_to_filename netloc_ok (fix_relative_url validate_url pdf_link) = Inr filename \<Longrightarrow>
   download_single_pdf session (fix_relative_url validate_url pdf_link) filename output_dir folder
     = Some (folder1, events1) \<Longrightarrow>
   process_links netloc_ok validate_url session output_dir (pdf_link # rest) folder =
     (case process_links netloc_ok validate_url session output_dir rest folder1 of
        None \<Rightarrow> None
      | Some (folder2, events2, raised) \<Rightarrow>
          Some (folder2, Validated pdf_link # events1 @ events2, raised))"
  by (simp add: Let_def)

lemma process_links_raises:
  "url_to_filename netloc_ok (fix_relative_url validate_url pdf_link) = Inl x \<Longrightarrow>
   process_links netloc_ok validate_url session output_dir (pdf_link # rest) folder =
     Some (folder, [Validated pdf_link], Some x)"
  by (simp add: Let_def)

lemma process_links_step:
  assumes "process_links netloc_ok validate_url session output_dir (pdf_link # rest) folder
             = Some (folder2, events, raised)"
    and "url_to_filename netloc_ok (fix_relative_url validate_url pdf_link) = Inr filename"
  obtains folder1 events1 events2 where
    "download_single_pdf session (fix_relative_url validate_url pdf_link) filename output_dir folder
       = Some (folder1, events1)"
    "process_links netloc_ok validate_url session output_dir rest folder1
       = Some (folder2, events2, raised)"
    "events = Validated pdf_link # events1 @ events2"
proof -
  let ?url = "fix_relative_url validate_url pdf_link"
  from assms obtain f1 ev1
    where d: "download_single_pdf session ?url filename output_dir folder = Some (f1, ev1)"
    by (cases "download_single_pdf session ?url filename output_dir folder") (auto simp: Let_def)
  from assms(1) obtain ev2
    where "process_links netloc_ok validate_url session output_dir rest f1
             = Some (folder2, ev2, raised)"
      and "events = Validated pdf_link # ev1 @ ev2"
    unfolding process_links_Cons [OF assms(2) d] by (auto split: option.splits)
  with d that show ?thesis by blast
qed

lemma process_links_validated:
  "process_links netloc_ok validate_url session output_dir links folder
     = Some (folder1, events, None) \<Longrightarrow>
     List.map_filter validated events = links"
proof (induction links arbitrary: folder folder1 events)
  case Nil
  then show ?case by (simp add: map_filter_def)
next
  case (Cons pdf_link rest)
  let ?url = "fix_relative_url validate_url pdf_link"
  from Cons.prems obtain filename where fn: "url_to_filename netloc_ok ?url = Inr filename"
    by (cases "url_to_filename netloc_ok ?url") (simp_all add: Let_def)
  from Cons.prems fn obtain f1 ev1 ev2
    where d: "download_single_pdf session ?url filename output_dir folder = Some (f1, ev1)"
      and r: "process_links netloc_ok validate_url session output_dir rest f1
                = Some (folder1, ev2, None)"
      and ev: "events = Validated pdf_link # ev1 @ ev2"
    by (rule process_links_step)
  from Cons.IH [OF r] map_filter_no_validation [OF download_single_pdf_no_validation [OF d]]
  show ?case
    unfolding ev by (simp add: map_filter_append)
qed

lemma process_links_validated_prefix:
  "process_links netloc_ok validate_url session output_dir links folder
     = Some (folder1, events, raised) \<Longrightarrow>
     prefix (List.map_filter validated events) links"
proof (induction links arbitrary: folder folder1 events)
  case Nil
  then show ?case by (simp add: map_filter_def)
next
  case (Cons pdf_link rest)
  let ?url = "fix_relative_url validate_url pdf_link"
  show ?case
  proof (cases "url_to_filename netloc_ok ?url")
    case (Inl x)
    with Cons.prems show ?thesis by (auto simp: Let_def map_filter_def)
  next
    case (Inr filename)
    from Cons.prems Inr obtain f1 ev1 ev2
      where d: "download_single_pdf session ?url filename output_dir folder = Some (f1, ev1)"
        and r: "process_links netloc_ok validate_url session output_dir rest f1
                  = Some (folder1, ev2, raised)"
        and ev: "events = Validated pdf_link # ev1 @ ev2"
      by (rule process_links_step)
    from Cons.IH [OF r] map_filter_no_validation [OF download_single_pdf_no_validation [OF d]]
    show ?thesis
      unfolding ev by (simp add: map_filter_append)
  qed
qed

lemma process_links_all_exist:
  "\<forall>pdf_link \<in> set links. \<exists>filename.
      url_to_filename netloc_ok (fix_relative_url validate_url pdf_link) = Inr filename
      \<and> check_file_exists entries filename \<Longrightarrow>
   \<exists>events. process_links netloc_ok validate_url session output_dir links (Some entries)
       = Some (Some entries, events, None)
     \<and> (\<forall>e \<in> set events. (\<exists>l. e = Validated l) \<or> (\<exists>p. e = LoggedExists p))"
proof (induction links)
  case Nil
  then show ?case by simp
next
  case (Cons pdf_link rest)
  then obtain filename
    where fn: "url_to_filename netloc_ok (fix_relative_url validate_url pdf_link) = Inr filename"
      and ex: "check_file_exists entries filename" by auto
  from Cons obtain events
    where r: "process_links netloc_ok validate_url session output_dir rest (Some entries)
        = Some (Some entries, events, None)"
      and ev: "\<forall>e \<in> set events. (\<exists>l. e = Validated l) \<or> (\<exists>p. e = LoggedExists p)" by auto
  show ?case
    unfolding process_links_Cons [OF fn download_single_pdf_exists [OF ex]] r
    using ev by simp
qed

text \<open>
  When the filename of every link can be derived and every wait ends, the loop goes
  through all the links, whatever fails in the downloads.
\<close>

lemma process_links_completes:
  "\<forall>pdf_link \<in> set links. \<exists>filename.
      url_to_filename netloc_ok (fix_relative_url validate_url pdf_link) = Inr filename \<Longrightarrow>
   \<forall>url entries before. wait_for_pdf_download output_dir before 3
      (clock (session url entries)) (polls (session url entries)) \<noteq> None \<Longrightarrow>
   \<exists>folder1 events. process_links netloc_ok validate_url session output_dir links folder
       = Some (folder1, events, None)"
proof (induction links arbitrary: folder)
  case Nil
  then show ?case by simp
next
  case (Cons pdf_link rest)
  let ?url = "fix_relative_url validate_url pdf_link"
  from Cons.prems(1) obtain filename where fn: "url_to_filename netloc_ok ?url = Inr filename"
    by auto
  from Cons.prems(2) obtain f1 ev1
    where d: "download_single_pdf session ?url filename output_dir folder = Some (f1, ev1)"
    using download_single_pdf_returns [of output_dir folder session ?url filename] by auto
  from Cons.prems(1) have "\<forall>pdf_link \<in> set rest. \<exists>filename.
      url_to_filename netloc_ok (fix_relative_url validate_url pdf_link) = Inr filename" by simp
  from Cons.IH [OF this Cons.prems(2), of f1] obtain f2 ev2
    where r: "process_links netloc_ok validate_url session output_dir rest f1
                = Some (f2, ev2, None)" by auto
  show ?case
    unfolding process_links_Cons [OF fn d] r by simp
qed

text \<open>
  Claim C7, as the code has it: \<open>download_single_pdf\<close> skips a target exactly when
  \<open>os.path.isfile\<close> holds of it. When the target is a regular file of the download
  folder (the folder has a file entry under the filename, which is not empty and no dot
  name), the function only logs that it exists: nothing is asked of the browser, there is
  no wait and the folder stays as it was. A target that is no regular file is navigated
  to, also when it exists as a directory. So a run over links whose targets are all
  regular files validates each link and logs each target, navigates nowhere, moves
  nothing and leaves the folder unchanged.
\<close>

theorem download_single_pdf_skips_existing:
  "(File filename \<in> set entries \<and> filename \<notin> set ['''', ''.'', ''..''] \<longrightarrow>
      download_single_pdf session url filename output_folder (Some entries) =
        Some (Some entries, [LoggedExists (os_path_join output_folder filename)]))
   \<and> (File filename \<notin> set entries \<or> filename \<in> set ['''', ''.'', ''..''] \<longrightarrow>
        (\<forall>folder1 events.
           download_single_pdf session url filename output_folder (Some entries)
             = Some (folder1, events) \<longrightarrow>
           (\<exists>outcome. events = [Navigated url, outcome])))
   \<and> ((\<forall>pdf_link \<in> set links. \<exists>name.
          url_to_filename netloc_ok (fix_relative_url validate_url pdf_link) = Inr name
          \<and> File name \<in> set entries \<and> name \<notin> set ['''', ''.'', ''..'']) \<longrightarrow>
       (\<exists>events. process_links netloc_ok validate_url session output_folder links (Some entries)
           = Some (Some entries, events, None)
         \<and> (\<forall>e \<in> set events. (\<exists>l. e = Validated l) \<or> (\<exists>p. e = LoggedExists p))))"
proof (intro conjI impI allI)
  assume "File filename \<in> set entries \<and> filename \<notin> set ['''', ''.'', ''..'']"
  then have "check_file_exists entries filename"
    by (simp add: check_file_exists_def)
  then show "download_single_pdf session url filename output_folder (Some entries) =
        Some (Some entries, [LoggedExists (os_path_join output_folder filename)])"
    by (rule download_single_pdf_exists)
next
  fix folder1 events
  assume "File filename \<notin> set entries \<or> filename \<in> set ['''', ''.'', ''..'']"
  then have "\<not> check_file_exists (makedirs (Some entries)) filename"
    by (auto simp: check_file_exists_def makedirs_def)
  moreover assume "download_single_pdf session url filename output_folder (Some entries)
      = Some (folder1, events)"
  ultimately show "\<exists>outcome. events = [Navigated url, outcome]"
    using download_single_pdf_attempt by blast
next
  assume "\<forall>pdf_link \<in> set links. \<exists>name.
          url_to_filename netloc_ok (fix_relative_url validate_url pdf_link) = Inr name
          \<and> File name \<in> set entries \<and> name \<notin> set ['''', ''.'', ''..'']"
  then have "\<forall>pdf_link \<in> set links. \<exists>name.
          url_to_filename netloc_ok (fix_relative_url validate_url pdf_link) = Inr name
          \<and> check_file_exists entries name"
    by (simp add: check_file_exists_def conj_commute)
  then show "\<exists>events. process_links netloc_ok validate_url session output_folder links (Some entries)
           = Some (Some entries, events, None)
         \<and> (\<forall>e \<in> set events. (\<exists>l. e = Validated l) \<or> (\<exists>p. e = LoggedExists p))"
    by (rule process_links_all_exist)
qed

theorem download_single_pdf_skips_existing_witness:
  "download_single_pdf failing_session ''https://www.biokleen.com/sds/new.pdf'' ''new.pdf''
       ''/work/PDFs'' (Some [File ''new.pdf''])
     = Some (Some [File ''new.pdf''], [LoggedExists ''/work/PDFs/new.pdf''])
   \<and> process_links ascii_no_brackets scheme_validator failing_session ''/work/PDFs''
       [''/sds/new.pdf''] (Some [File ''new.pdf''])
     = Some (Some [File ''new.pdf''],
             [Validated ''/sds/new.pdf'', LoggedExists ''/work/PDFs/new.pdf''], None)"
proof -
  note inst = download_single_pdf_skips_existing [of "''new.pdf''" "[File ''new.pdf'']"
      failing_session "''https://www.biokleen.com/sds/new.pdf''" "''/work/PDFs''"
      "[''/sds/new.pdf'']" ascii_no_brackets scheme_validator]
  have ex: "File ''new.pdf'' \<in> set [File ''new.pdf''] \<and> ''new.pdf'' \<notin> set ['''', ''.'', ''..'']"
    by simp
  have j: "os_path_join ''/work/PDFs'' ''new.pdf'' = ''/work/PDFs/new.pdf''" by code_simp
  have u: "url_to_filename ascii_no_brackets (fix_relative_url scheme_validator ''/sds/new.pdf'')
      = Inr ''new.pdf''"
    by code_simp
  have all: "\<forall>pdf_link \<in> set [''/sds/new.pdf'']. \<exists>name.
          url_to_filename ascii_no_brackets (fix_relative_url scheme_validator pdf_link) = Inr name
          \<and> File name \<in> set [File ''new.pdf''] \<and> name \<notin> set ['''', ''.'', ''..'']"
    using u by simp
  from inst have c1: "File ''new.pdf'' \<in> set [File ''new.pdf'']
        \<and> ''new.pdf'' \<notin> set ['''', ''.'', ''..''] \<longrightarrow>
      download_single_pdf failing_session ''https://www.biokleen.com/sds/new.pdf'' ''new.pdf''
        ''/work/PDFs'' (Some [File ''new.pdf'']) =
        Some (Some [File ''new.pdf''], [LoggedExists (os_path_join ''/work/PDFs'' ''new.pdf'')])"
    by (rule conjunct1)
  from c1 ex have one: "download_single_pdf failing_session
       ''https://www.biokleen.com/sds/new.pdf'' ''new.pdf'' ''/work/PDFs'' (Some [File ''new.pdf''])
     = Some (Some [File ''new.pdf''], [LoggedExists ''/work/PDFs/new.pdf''])"
    unfolding j by (rule mp)
  from inst have c3: "(\<forall>pdf_link \<in> set [''/sds/new.pdf'']. \<exists>name.
          url_to_filename ascii_no_brackets (fix_relative_url scheme_validator pdf_link) = Inr name
          \<and> File name \<in> set [File ''new.pdf''] \<and> name \<notin> set ['''', ''.'', ''..'']) \<longrightarrow>
       (\<exists>events. process_links ascii_no_brackets scheme_validator failing_session ''/work/PDFs''
             [''/sds/new.pdf''] (Some [File ''new.pdf''])
           = Some (Some [File ''new.pdf''], events, None)
         \<and> (\<forall>e \<in> set events. (\<exists>l. e = Validated l) \<or> (\<exists>p. e = LoggedExists p)))"
    by (elim conjE)
  from c3 all have "\<exists>events. process_links ascii_no_brackets scheme_validator failing_session
             ''/work/PDFs'' [''/sds/new.pdf''] (Some [File ''new.pdf''])
           = Some (Some [File ''new.pdf''], events, None)
         \<and> (\<forall>e \<in> set events. (\<exists>l. e = Validated l) \<or> (\<exists>p. e = LoggedExists p))"
    by (rule mp)
  then obtain events
    where p: "process_links ascii_no_brackets scheme_validator failing_session ''/work/PDFs''
       [''/sds/new.pdf''] (Some [File ''new.pdf'']) = Some (Some [File ''new.pdf''], events, None)"
    by (elim exE conjE)
  have q: "process_links ascii_no_brackets scheme_validator failing_session ''/work/PDFs''
       [''/sds/new.pdf''] (Some [File ''new.pdf''])
     = Some (Some [File ''new.pdf''],
             [Validated ''/sds/new.pdf'', LoggedExists ''/work/PDFs/new.pdf''], None)"
    by code_simp
  from p q have "events = [Validated ''/sds/new.pdf'', LoggedExists ''/work/PDFs/new.pdf'']"
    by simp
  with p have "process_links ascii_no_brackets scheme_validator failing_session ''/work/PDFs''
       [''/sds/new.pdf''] (Some [File ''new.pdf''])
     = Some (Some [File ''new.pdf''],
             [Validated ''/sds/new.pdf'', LoggedExists ''/work/PDFs/new.pdf''], None)"
    by simp
  with one show ?thesis by (rule conjI)
qed

text \<open>
  A destination that exists as a directory is not skipped: with a directory named
  \<open>a.pdf\<close> in the download folder, the download of \<open>a.pdf\<close> is asked of the browser.
  And the link \<open>/sds/?f=a.pdf\<close>, which the extraction takes for a PDF link, has the
  empty filename: its destination is the download folder itself, which exists, and every
  run over the populated folder navigates to the link again.
\<close>

theorem existing_directory_not_skipped_counterexample:
  "destination_exists [Dir ''a.pdf'' []] ''a.pdf''
   \<and> download_single_pdf failing_session ''https://www.biokleen.com/sds/a.pdf'' ''a.pdf''
       ''/work/PDFs'' (Some [Dir ''a.pdf'' []])
     = Some (Some [Dir ''a.pdf'' []],
             [Navigated ''https://www.biokleen.com/sds/a.pdf'', LoggedError WebDriverException])
   \<and> is_pdf_href ''/sds/?f=a.pdf''
   \<and> url_to_filename ascii_no_brackets ''https://www.biokleen.com/sds/?f=a.pdf'' = Inr ''''
   \<and> destination_exists [File ''a.pdf''] ''''
   \<and> process_links ascii_no_brackets scheme_validator failing_session ''/work/PDFs''
       [''/sds/?f=a.pdf''] (Some [File ''a.pdf''])
     = Some (Some [File ''a.pdf''],
             [Validated ''/sds/?f=a.pdf'', Navigated ''https://www.biokleen.com/sds/?f=a.pdf'',
              LoggedError WebDriverException],
             None)"
  by code_simp

text \<open>
  Claim C6 asks that an exception of any step for a link, the derivation of the filename
  included, is recorded for that link and that the loop goes on. The code does so for
  the navigation, the wait and the move, which \<open>download_single_pdf\<close> wraps in its
  handler, but \<open>main\<close> derives the filename outside any handler. A link named
  \<open>sheet[1.pdf\<close> is no valid URL; with the origin in front its authority has an unmatched
  bracket and the derivation of the filename raises \<open>ValueError\<close>. The run ends there: the
  link \<open>/sds/b.pdf\<close> that follows is never looked at and the sweep, which would have
  opened \<open>Old.pdf\<close>, does not take place. The failures of the download itself do not
  end the loop: with a session that fails every navigation, and with one in which no
  document arrives before the deadline, the failure of the first link is logged and the
  second link is processed.
\<close>

theorem filename_error_aborts_run:
  "main bracket_env None (Some [File ''Old.pdf''])
     = Some ([CreatedHtmlDriver, FetchedPage ''https://www.biokleen.com/sds'', QuitHtmlDriver,
              CreatedDownloadDriver ''/work/PDFs'', Validated ''sheet[1.pdf'',
              QuitDownloadDriver],
             Some ValueError)
   \<and> process_links ascii_no_brackets scheme_validator failing_session ''/work/PDFs''
       [''/sds/a.pdf'', ''/sds/b.pdf''] (Some [File ''Old.pdf''])
     = Some (Some [File ''Old.pdf''],
             [Validated ''/sds/a.pdf'', Navigated ''https://www.biokleen.com/sds/a.pdf'',
              LoggedError WebDriverException,
              Validated ''/sds/b.pdf'', Navigated ''https://www.biokleen.com/sds/b.pdf'',
              LoggedError WebDriverException],
             None)
   \<and> process_links ascii_no_brackets scheme_validator timeout_session ''/work/PDFs''
       [''/sds/a.pdf'', ''/sds/b.pdf''] (Some [File ''Old.pdf''])
     = Some (Some [File ''Old.pdf''],
             [Validated ''/sds/a.pdf'', Navigated ''https://www.biokleen.com/sds/a.pdf'',
              LoggedError TimeoutError,
              Validated ''/sds/b.pdf'', Navigated ''https://www.biokleen.com/sds/b.pdf'',
              LoggedError TimeoutError],
             None)"
  by code_simp

section \<open>The URL of every link\<close>

lemma segments_skip: "validated ev = None \<Longrightarrow> segments (ev # events) = segments events"
  by (cases ev) simp_all

lemma segments_no_validation:
  "\<forall>ev \<in> set block. validated ev = None \<Longrightarrow> segments (block @ events) = segments events"
  by (induction block) (simp_all add: segments_skip)

lemma takeWhile_block:
  "\<forall>ev \<in> set block. validated ev = None \<Longrightarrow>
   events = [] \<or> (\<exists>l rest. events = Validated l # rest) \<Longrightarrow>
     takeWhile (\<lambda>ev. validated ev = None) (block @ events) = block"
  by (induction block) auto

lemma segments_block:
  "\<forall>ev \<in> set block. validated ev = None \<Longrightarrow>
   events = [] \<or> (\<exists>l rest. events = Validated l # rest) \<Longrightarrow>
     segments (Validated pdf_link # block @ events) = (pdf_link, block) # segments events"
proof -
  assume quiet: "\<forall>ev \<in> set block. validated ev = None"
    and head: "events = [] \<or> (\<exists>l rest. events = Validated l # rest)"
  from quiet head have "takeWhile (\<lambda>ev. validated ev = None) (block @ events) = block"
    by (rule takeWhile_block)
  moreover from quiet have "segments (block @ events) = segments events"
    by (rule segments_no_validation)
  ultimately show ?thesis
    by (simp only: segments.simps)
qed

lemma segments_validated: "map fst (segments events) = List.map_filter validated events"
proof (induction events)
  case Nil
  then show ?case by (simp add: map_filter_def)
next
  case (Cons ev events)
  then show ?case by (cases ev) (simp_all add: map_filter_def)
qed

lemma segments_concat:
  "concat (map (\<lambda>(pdf_link, block). Validated pdf_link # block) (segments events)) =
     dropWhile (\<lambda>ev. validated ev = None) events"
proof (induction events)
  case Nil
  then show ?case by simp
next
  case (Cons ev events)
  then show ?case by (cases ev) simp_all
qed

lemma process_links_events_head:
  "process_links netloc_ok validate_url session output_dir links folder
     = Some (folder1, events, raised) \<Longrightarrow>
     events = [] \<or> (\<exists>l rest. events = Validated l # rest)"
proof (cases links)
  case Nil
  assume "process_links netloc_ok validate_url session output_dir links folder
     = Some (folder1, events, raised)"
  with Nil show ?thesis by simp
next
  case (Cons pdf_link rest)
  assume "process_links netloc_ok validate_url session output_dir links folder
     = Some (folder1, events, raised)"
  with Cons show ?thesis
    by (auto simp: Let_def split: sum.splits option.splits)
qed

lemma process_links_segments:
  "process_links netloc_ok validate_url session output_dir links folder
     = Some (folder1, events, raised) \<Longrightarrow>
   (pdf_link, block) \<in> set (segments events) \<Longrightarrow>
     (\<exists>filename.
        url_to_filename netloc_ok (fix_relative_url validate_url pdf_link) = Inr filename
        \<and> (block = [LoggedExists (os_path_join output_dir filename)]
           \<or> (\<exists>e. block = [Navigated (fix_relative_url validate_url pdf_link), LoggedError e])
           \<or> (\<exists>src. block = [Navigated (fix_relative_url validate_url pdf_link),
                                Moved src (os_path_join output_dir filename)])))
     \<or> (\<exists>x. url_to_filename netloc_ok (fix_relative_url validate_url pdf_link) = Inl x
            \<and> block = [] \<and> raised = Some x)"
proof (induction links arbitrary: folder folder1 events)
  case Nil
  then show ?case by simp
next
  case (Cons link rest)
  let ?url = "fix_relative_url validate_url link"
  show ?case
  proof (cases "url_to_filename netloc_ok ?url")
    case (Inl x)
    with Cons.prems show ?thesis by (auto simp: Let_def)
  next
    case (Inr filename)
    from Cons.prems(1) Inr obtain f1 ev1 ev2
      where d: "download_single_pdf session ?url filename output_dir folder = Some (f1, ev1)"
        and r: "process_links netloc_ok validate_url session output_dir rest f1
                  = Some (folder1, ev2, raised)"
        and ev: "events = Validated link # ev1 @ ev2"
      by (rule process_links_step)
    have "segments events = (link, ev1) # segments ev2"
      unfolding ev
      using download_single_pdf_no_validation [OF d] process_links_events_head [OF r]
      by (rule segments_block)
    with Cons.prems(2) have "(pdf_link, block) = (link, ev1) \<or> (pdf_link, block) \<in> set (segments ev2)"
      by simp
    then show ?thesis
    proof
      assume "(pdf_link, block) = (link, ev1)"
      with download_single_pdf_events [OF d] Inr show ?thesis by auto
    next
      assume "(pdf_link, block) \<in> set (segments ev2)"
      with Cons.IH [OF r] show ?thesis by simp
    qed
  qed
qed

text \<open>
  Claim C9: the events of a run of the loop are the validations of the links, each
  followed by the events of its link. The validations are those of the links as they
  were extracted, in their order and once each, up to the link at which the loop ended.
  What follows the validation of a link is either the log line of its existing target,
  or the navigation to the link itself when it passed the validation and else to the site
  origin with the link appended as it is, followed by the outcome of that download; the
  URL navigated to is not validated. Nothing follows the validation of a link whose
  filename could not be derived.
\<close>

theorem process_links_url_repair:
  assumes "process_links netloc_ok validate_url session output_dir links folder
             = Some (folder1, events, raised)"
  shows "events = concat (map (\<lambda>(pdf_link, block). Validated pdf_link # block) (segments events))
       \<and> map fst (segments events) = List.map_filter validated events
       \<and> prefix (List.map_filter validated events) links
       \<and> (raised = None \<longrightarrow> List.map_filter validated events = links)
       \<and> (\<forall>(pdf_link, block) \<in> set (segments events).
            (\<exists>filename.
               url_to_filename netloc_ok
                 (if validate_url pdf_link then pdf_link
                  else ''https://www.biokleen.com'' @ pdf_link) = Inr filename
               \<and> (block = [LoggedExists (os_path_join output_dir filename)]
                  \<or> (\<exists>e. block =
                        [Navigated (if validate_url pdf_link then pdf_link
                                    else ''https://www.biokleen.com'' @ pdf_link),
                         LoggedError e])
                  \<or> (\<exists>src. block =
                        [Navigated (if validate_url pdf_link then pdf_link
                                    else ''https://www.biokleen.com'' @ pdf_link),
                         Moved src (os_path_join output_dir filename)])))
            \<or> (block = [] \<and> raised \<noteq> None))"
proof (intro conjI impI ballI)
  from process_links_events_head [OF assms]
  have "dropWhile (\<lambda>ev. validated ev = None) events = events"
    by auto
  then show "events = concat (map (\<lambda>(pdf_link, block). Validated pdf_link # block) (segments events))"
    by (simp only: segments_concat)
  show "map fst (segments events) = List.map_filter validated events"
    by (rule segments_validated)
  show "prefix (List.map_filter validated events) links"
    using assms by (rule process_links_validated_prefix)
next
  assume "raised = None"
  with assms show "List.map_filter validated events = links"
    using process_links_validated by blast
next
  fix seg assume seg: "seg \<in> set (segments events)"
  obtain pdf_link block where s: "seg = (pdf_link, block)" by (cases seg)
  have repair: "fix_relative_url validate_url pdf_link =
      (if validate_url pdf_link then pdf_link else ''https://www.biokleen.com'' @ pdf_link)"
    by (simp add: fix_relative_url_def site_origin_def)
  from process_links_segments [OF assms, of pdf_link block] seg s
  show "case seg of (pdf_link, block) \<Rightarrow>
            (\<exists>filename.
               url_to_filename netloc_ok
                 (if validate_url pdf_link then pdf_link
                  else ''https://www.biokleen.com'' @ pdf_link) = Inr filename
               \<and> (block = [LoggedExists (os_path_join output_dir filename)]
                  \<or> (\<exists>e. block =
                        [Navigated (if validate_url pdf_link then pdf_link
                                    else ''https://www.biokleen.com'' @ pdf_link),
                         LoggedError e])
                  \<or> (\<exists>src. block =
                        [Navigated (if validate_url pdf_link then pdf_link
                                    else ''https://www.biokleen.com'' @ pdf_link),
                         Moved src (os_path_join output_dir filename)])))
            \<or> (block = [] \<and> raised \<noteq> None)"
    unfolding repair s by auto
qed

theorem process_links_url_repair_witness:
  "process_links ascii_no_brackets scheme_validator failing_session ''/work/PDFs''
       [''/sds/a.pdf'', ''https://example.org/b.pdf''] None
     = Some (Some [],
             [Validated ''/sds/a.pdf'', Navigated ''https://www.biokleen.com/sds/a.pdf'',
              LoggedError WebDriverException,
              Validated ''https://example.org/b.pdf'', Navigated ''https://example.org/b.pdf'',
              LoggedError WebDriverException],
             None)
   \<and> List.map_filter validated
       [Validated ''/sds/a.pdf'', Navigated ''https://www.biokleen.com/sds/a.pdf'',
        LoggedError WebDriverException,
        Validated ''https://example.org/b.pdf'', Navigated ''https://example.org/b.pdf'',
        LoggedError WebDriverException]
     = [''/sds/a.pdf'', ''https://example.org/b.pdf'']
   \<and> segments
       [Validated ''/sds/a.pdf'', Navigated ''https://www.biokleen.com/sds/a.pdf'',
        LoggedError WebDriverException,
        Validated ''https://example.org/b.pdf'', Navigated ''https://example.org/b.pdf'',
        LoggedError WebDriverException]
     = [(''/sds/a.pdf'',
         [Navigated ''https://www.biokleen.com/sds/a.pdf'', LoggedError WebDriverException]),
        (''https://example.org/b.pdf'',
         [Navigated ''https://example.org/b.pdf'', LoggedError WebDriverException])]"
proof -
  have run: "process_links ascii_no_brackets scheme_validator failing_session ''/work/PDFs''
       [''/sds/a.pdf'', ''https://example.org/b.pdf''] None
     = Some (Some [],
             [Validated ''/sds/a.pdf'', Navigated ''https://www.biokleen.com/sds/a.pdf'',
              LoggedError WebDriverException,
              Validated ''https://example.org/b.pdf'', Navigated ''https://example.org/b.pdf'',
              LoggedError WebDriverException],
             None)"
    by code_simp
  have cut: "segments
       [Validated ''/sds/a.pdf'', Navigated ''https://www.biokleen.com/sds/a.pdf'',
        LoggedError WebDriverException,
        Validated ''https://example.org/b.pdf'', Navigated ''https://example.org/b.pdf'',
        LoggedError WebDriverException]
     = [(''/sds/a.pdf'',
         [Navigated ''https://www.biokleen.com/sds/a.pdf'', LoggedError WebDriverException]),
        (''https://example.org/b.pdf'',
         [Navigated ''https://example.org/b.pdf'', LoggedError WebDriverException])]"
    by code_simp
  from process_links_url_repair [OF run]
  have "None = (None :: exn option) \<longrightarrow> List.map_filter validated
       [Validated ''/sds/a.pdf'', Navigated ''https://www.biokleen.com/sds/a.pdf'',
        LoggedError WebDriverException,
        Validated ''https://example.org/b.pdf'', Navigated ''https://example.org/b.pdf'',
        LoggedError WebDriverException]
     = [''/sds/a.pdf'', ''https://example.org/b.pdf'']"
    by (elim conjE)
  then have "List.map_filter validated
       [Validated ''/sds/a.pdf'', Navigated ''https://www.biokleen.com/sds/a.pdf'',
        LoggedError WebDriverException,
        Validated ''https://example.org/b.pdf'', Navigated ''https://example.org/b.pdf'',
        LoggedError WebDriverException]
     = [''/sds/a.pdf'', ''https://example.org/b.pdf'']"
    by (rule mp) (rule refl)
  with run cut show ?thesis by (intro conjI)
qed

text \<open>
  Claim C1, as the code has it: \<open>main\<close> removes a snapshot file that exists, so the fetch
  always takes place: the fetch session is started and quit, and the snapshot afterwards
  holds the page just fetched, or does not exist when the load timed out or failed. A run
  that finds a snapshot is the run without one, after the removal: the old content is
  never parsed.
\<close>

theorem main_always_fetches:
  "main_fetch fetch_page snapshot =
     (case fetch_page page_url of
        PageSource html \<Rightarrow>
          (Some html,
           (if snapshot \<noteq> None then [Removed html_file_path] else [])
           @ [CreatedHtmlDriver, FetchedPage page_url, QuitHtmlDriver],
           None)
      | PageLoadTimeout \<Rightarrow>
          (None,
           (if snapshot \<noteq> None then [Removed html_file_path] else [])
           @ [CreatedHtmlDriver, FetchedPage page_url, LoggedError TimeoutException,
              QuitHtmlDriver],
           None)
      | PageLoadError x \<Rightarrow>
          (None,
           (if snapshot \<noteq> None then [Removed html_file_path] else [])
           @ [CreatedHtmlDriver, FetchedPage page_url, QuitHtmlDriver],
           Some x))
   \<and> main e (Some old) folder =
       map_option (\<lambda>(events, raised). (Removed html_file_path # events, raised))
         (main e None folder)"
  using main_fetch_result main_old by (rule conjI)

text \<open>
  A run that finds a snapshot with a link to \<open>old.pdf\<close> removes it, starts the fetch
  session and goes on with the link of the page it fetched.
\<close>

theorem existing_snapshot_refetched_counterexample:
  "main example_env (Some ''<a href=/sds/old.pdf>'') None
     = Some ([Removed ''biokleen.com.html'', CreatedHtmlDriver,
              FetchedPage ''https://www.biokleen.com/sds'', QuitHtmlDriver,
              CreatedDownloadDriver ''/work/PDFs'', Validated ''/sds/new.pdf'',
              Navigated ''https://www.biokleen.com/sds/new.pdf'',
              LoggedError WebDriverException, QuitDownloadDriver],
             None)"
  by code_simp
end
